theory Spec2Isabelle
  imports Main "HOL-Library.Word"
begin

unbundle bit_operations_syntax

section \<open>Basic types\<close>

text \<open>
  Identifiers of stored messages are Go \<open>uint64\<close>, IMAP sequence numbers and the cached
  counters of a mailbox are \<open>uint32\<close>; both wrap around. Slice indices and lengths are
  Go \<open>int\<close>; a slice never has more than \<open>2 ^ 63 - 1\<close> elements, so they are \<open>nat\<close>.
\<close>

type_synonym byte = "8 word"
type_synonym bytes = "byte list"
type_synonym uid = "64 word"
type_synonym seqno = "32 word"

section \<open>Translation of a uid into a sequence number\<close>

text \<open>
  \<^verbatim>\<open>
  func GetSequenceNumber(uids []uint64, uid uint64) uint32 {
      if len(uids) == 0 { return 0 }
      for i, u := range uids {
          if u > uid { return uint32(i + 1) }
          if uid == u { return uint32(i + 1) }
      }
      return 0
  }
  \<close>
  The loop is \<open>GetSequenceNumber_loop\<close>: its first argument is the index \<open>i\<close> of the
  element the loop is looking at. The conversion \<open>uint32(i + 1)\<close> keeps the low 32 bits.
\<close>

fun GetSequenceNumber_loop :: "nat \<Rightarrow> uid list \<Rightarrow> uid \<Rightarrow> seqno" where
  "GetSequenceNumber_loop i [] uid = 0"
| "GetSequenceNumber_loop i (u # us) uid =
     (if u > uid then word_of_nat (i + 1)
      else if uid = u then word_of_nat (i + 1)
      else GetSequenceNumber_loop (Suc i) us uid)"

definition GetSequenceNumber :: "uid list \<Rightarrow> uid \<Rightarrow> seqno" where
  "GetSequenceNumber uids uid =
     (if length uids = 0 then 0 else GetSequenceNumber_loop 0 uids uid)"

text \<open>The uid list of a mailbox whose messages carry the ids \<open>1, \<dots>, n\<close>.\<close>

definition ids_upto :: "nat \<Rightarrow> uid list" where
  "ids_upto n = map word_of_nat [1..<Suc n]"

section \<open>Errors\<close>

text \<open>
  The error values of the store (\<open>ErrNotFound\<close>, \<open>ErrInvalidID\<close>, \<open>ErrDuplicateID\<close>,
  \<open>ErrDecryptionFailed\<close>), the errors the mailbox creates with \<open>errors.New\<close>, and the
  run-time panic of a slice index out of range.
\<close>

datatype error =
    ErrNotFound
  | ErrInvalidID
  | ErrDuplicateID
  | ErrDecryptionFailed
  | ErrNilMessage \<comment> \<open>\<open>errors.New("Nil message inserted.")\<close>\<close>
  | ErrInvalidSequenceNumber \<comment> \<open>\<open>errors.New("Invalid sequence number")\<close>: InvalidSequence\<close>
  | ErrInvalidUid \<comment> \<open>\<open>errors.New("Invalid uid")\<close>\<close>
  | ErrCannotChangeDate \<comment> \<open>\<open>errors.New("Cannot change date received")\<close>: ImmutableFieldViolation\<close>
  | ErrAckFound \<comment> \<open>\<open>errAckFound\<close>, the signal that stops the acknowledgement scan\<close>
  | ErrLogged \<comment> \<open>the error value \<open>imapLog.Errorf\<close> hands back\<close>
  | ErrDecode \<comment> \<open>an error of \<open>DecodeBitmessage\<close>\<close>
  | ErrSerialize \<comment> \<open>an error of \<open>Serialize\<close>\<close>
  | ErrBadSequenceNumber \<comment> \<open>an error of \<open>SequenceNumber.Value\<close>\<close>
  | PanicIndexOutOfRange

section \<open>The reference folder of the store tests\<close>

text \<open>
  \<^verbatim>\<open>
  type message struct { payload []byte; suffix uint64 }
  type testFolder struct { name string; nextIndex uint64; messages map[uint64]message }
  \<close>
  A \<open>[]byte\<close> argument may be \<open>nil\<close>, which the insert operations test for: it is
  \<open>None\<close> here.
\<close>

record message =
  payload :: bytes
  msg_suffix :: "64 word"

record testFolder =
  tf_name :: string
  nextIndex :: "64 word"
  tf_messages :: "64 word \<rightharpoonup> message"

text \<open>\<open>testFolderTestContext.GetFolder\<close>: a new folder is empty and starts at id 1.\<close>

definition GetFolder :: "string \<Rightarrow> testFolder" where
  "GetFolder n = \<lparr>tf_name = n, nextIndex = 1, tf_messages = Map.empty\<rparr>"

definition tf_NextID :: "testFolder \<Rightarrow> 64 word" where
  "tf_NextID f = nextIndex f"

text \<open>
  \<open>InsertNewMessage\<close> stores at \<open>nextIndex\<close> and returns it; the deferred
  \<open>f.nextIndex++\<close> is registered after the \<open>nil\<close> test, so it runs only on success.
\<close>

definition tf_InsertNewMessage ::
  "testFolder \<Rightarrow> bytes option \<Rightarrow> 64 word \<Rightarrow> (error + 64 word) \<times> testFolder" where
  "tf_InsertNewMessage f msg sfx =
     (case msg of
        None \<Rightarrow> (Inl ErrNilMessage, f)
      | Some p \<Rightarrow>
          (Inr (nextIndex f),
           f\<lparr>tf_messages := (tf_messages f)(nextIndex f \<mapsto> \<lparr>payload = p, msg_suffix = sfx\<rparr>),
             nextIndex := nextIndex f + 1\<rparr>))"

definition tf_InsertMessage ::
  "testFolder \<Rightarrow> 64 word \<Rightarrow> bytes option \<Rightarrow> 64 word \<Rightarrow> error option \<times> testFolder" where
  "tf_InsertMessage f i msg sfx =
     (if i = 0 \<or> i \<ge> nextIndex f then (Some ErrInvalidID, f)
      else case msg of
        None \<Rightarrow> (Some ErrNilMessage, f)
      | Some p \<Rightarrow>
          (case tf_messages f i of
             Some _ \<Rightarrow> (Some ErrDuplicateID, f)
           | None \<Rightarrow>
               (None, f\<lparr>tf_messages := (tf_messages f)(i \<mapsto> \<lparr>payload = p, msg_suffix = sfx\<rparr>)\<rparr>)))"

definition tf_GetMessage :: "testFolder \<Rightarrow> 64 word \<Rightarrow> error + (64 word \<times> bytes)" where
  "tf_GetMessage f i =
     (if i = 0 \<or> i \<ge> nextIndex f then Inl ErrNotFound
      else case tf_messages f i of
        None \<Rightarrow> Inl ErrNotFound
      | Some m \<Rightarrow> Inr (msg_suffix m, payload m))"

definition tf_DeleteMessage :: "testFolder \<Rightarrow> 64 word \<Rightarrow> error option \<times> testFolder" where
  "tf_DeleteMessage f i =
     (if i = 0 \<or> i \<ge> nextIndex f then (Some ErrInvalidID, f)
      else case tf_messages f i of
        None \<Rightarrow> (Some ErrNotFound, f)
      | Some _ \<Rightarrow> (None, f\<lparr>tf_messages := (tf_messages f)(i := None)\<rparr>))"

text \<open>
  A sequence of insert and delete operations on one folder. \<open>folder_step\<close> runs one of
  them and also gives the id that the operation allocated, if it allocated one;
  \<open>folder_run\<close> runs a list of them, \<open>allocated\<close> collects the ids allocated on the way.
\<close>

datatype folder_op =
    InsertNew "bytes option" "64 word"
  | InsertAt "64 word" "bytes option" "64 word"
  | Delete "64 word"

fun folder_step :: "testFolder \<Rightarrow> folder_op \<Rightarrow> 64 word option \<times> testFolder" where
  "folder_step f (InsertNew msg sfx) =
     (case tf_InsertNewMessage f msg sfx of
        (Inl e, f') \<Rightarrow> (None, f')
      | (Inr i, f') \<Rightarrow> (Some i, f'))"
| "folder_step f (InsertAt i msg sfx) = (None, snd (tf_InsertMessage f i msg sfx))"
| "folder_step f (Delete i) = (None, snd (tf_DeleteMessage f i))"

fun folder_run :: "testFolder \<Rightarrow> folder_op list \<Rightarrow> testFolder" where
  "folder_run f [] = f"
| "folder_run f (x # xs) = folder_run (snd (folder_step f x)) xs"

fun allocated :: "testFolder \<Rightarrow> folder_op list \<Rightarrow> 64 word list" where
  "allocated f [] = []"
| "allocated f (x # xs) =
     (case folder_step f x of
        (None, f') \<Rightarrow> allocated f' xs
      | (Some i, f') \<Rightarrow> i # allocated f' xs)"

section \<open>The folder behind a mailbox\<close>

text \<open>
  Modelled from the spec: the state of a \<open>store.Mailbox\<close> (package \<open>store\<close>), in
  which the IMAP mailbox keeps its messages and whose source is missing: an ordered table
  from ids to (suffix, payload) entries, with a next-id bound. The table is a list of
  (id, suffix, payload) triples.
\<close>

type_synonym entry = "uid \<times> 64 word \<times> bytes"

record store_Mailbox =
  mb_name :: string
  mb_next :: "64 word"
  mb_entries :: "entry list"

text \<open>
  Modelled from the spec: \<open>store.Mailbox.NextID\<close>, missing from the source: the next
  auto-assigned id.
\<close>

definition store_NextID :: "store_Mailbox \<Rightarrow> error + 64 word" where
  "store_NextID m = Inr (mb_next m)"

text \<open>
  Modelled from the spec: \<open>store.Mailbox.LastIDBySuffix\<close>, missing from the source: the
  highest id among the entries tagged with the suffix, \<open>NotFound\<close> if no entry carries it.
\<close>

definition store_LastIDBySuffix :: "store_Mailbox \<Rightarrow> 64 word \<Rightarrow> error + 64 word" where
  "store_LastIDBySuffix m sfx =
     (case filter (\<lambda>(i, s, p). s = sfx) (mb_entries m) of
        [] \<Rightarrow> Inl ErrNotFound
      | e # es \<Rightarrow> Inr (fold max (map fst es) (fst e)))"

text \<open>
  Modelled from the spec: \<open>store.Mailbox.GetMessage\<close>, missing from the source:
  \<open>InvalidID\<close> for id 0 or an id at or beyond the next-id bound, \<open>NotFound\<close> for an id
  in range with no entry, and otherwise the suffix and the payload of the entry.
\<close>

definition store_GetMessage :: "store_Mailbox \<Rightarrow> uid \<Rightarrow> error + (64 word \<times> bytes)" where
  "store_GetMessage m i =
     (if i = 0 \<or> i \<ge> mb_next m then Inl ErrInvalidID
      else case map_of (mb_entries m) i of
        None \<Rightarrow> Inl ErrNotFound
      | Some sp \<Rightarrow> Inr sp)"

text \<open>
  Modelled from the spec: \<open>store.Mailbox.DeleteMessage\<close>, missing from the source: the
  same two failures as \<open>GetMessage\<close>, and otherwise the entry is removed.
\<close>

definition store_DeleteMessage :: "store_Mailbox \<Rightarrow> uid \<Rightarrow> error option \<times> store_Mailbox" where
  "store_DeleteMessage m i =
     (if i = 0 \<or> i \<ge> mb_next m then (Some ErrInvalidID, m)
      else case map_of (mb_entries m) i of
        None \<Rightarrow> (Some ErrNotFound, m)
      | Some sp \<Rightarrow> (None, m\<lparr>mb_entries := filter (\<lambda>e. fst e \<noteq> i) (mb_entries m)\<rparr>))"

text \<open>
  Modelled from the spec: \<open>store.Mailbox.InsertMessage(msg, id, suffix)\<close>, missing from
  the source. With id 0 it appends at the next id and fails if the payload is empty; with
  an explicit id it fails with \<open>DuplicateID\<close> if the id is occupied and with \<open>InvalidID\<close>
  if the id is at or beyond the next-id bound. It returns the id of the new entry.
\<close>

definition store_InsertMessage ::
  "store_Mailbox \<Rightarrow> bytes \<Rightarrow> uid \<Rightarrow> 64 word \<Rightarrow> (error + uid) \<times> store_Mailbox" where
  "store_InsertMessage m msg i sfx =
     (if i = 0 then
        (if msg = [] then (Inl ErrNilMessage, m)
         else (Inr (mb_next m),
               m\<lparr>mb_entries := mb_entries m @ [(mb_next m, sfx, msg)],
                 mb_next := mb_next m + 1\<rparr>))
      else if i \<ge> mb_next m then (Inl ErrInvalidID, m)
      else if map_of (mb_entries m) i \<noteq> None then (Inl ErrDuplicateID, m)
      else (Inr i, m\<lparr>mb_entries := insort_key fst (i, sfx, msg) (mb_entries m)\<rparr>))"

text \<open>
  Modelled from the spec: \<open>store.Mailbox.ForEachMessage(lowID, highID, suffix, fn)\<close>,
  missing from the source: it visits in ascending order of id the entries with
  \<open>lowID \<le> id \<le> highID\<close> (0 on either bound is no bound) that carry the suffix; the
  first error the visitor returns ends the enumeration and is returned. \<open>selected\<close> is
  the list of the entries it visits.
\<close>

definition selected :: "store_Mailbox \<Rightarrow> uid \<Rightarrow> uid \<Rightarrow> 64 word \<Rightarrow> entry list" where
  "selected m lowID highID sfx =
     sort_key fst
       (filter (\<lambda>(i, s, p). (lowID = 0 \<or> lowID \<le> i) \<and> (highID = 0 \<or> i \<le> highID) \<and> s = sfx)
          (mb_entries m))"

text \<open>
  Modelled from the spec: the loop of \<open>ForEachMessage\<close> over the entries it visits. The
  visitors of the mailbox are closures that update local variables: here the visitor takes
  the state of these variables and returns it updated.
\<close>

fun visit_all ::
  "(uid \<Rightarrow> 64 word \<Rightarrow> bytes \<Rightarrow> 's \<Rightarrow> error option \<times> 's) \<Rightarrow> entry list \<Rightarrow> 's \<Rightarrow> error option \<times> 's"
  where
  "visit_all fn [] st = (None, st)"
| "visit_all fn ((i, s, p) # es) st =
     (case fn i s p st of
        (Some e, st') \<Rightarrow> (Some e, st')
      | (None, st') \<Rightarrow> visit_all fn es st')"

text \<open>Modelled from the spec: \<open>ForEachMessage\<close> itself, from the two parts above.\<close>

definition store_ForEachMessage ::
  "store_Mailbox \<Rightarrow> uid \<Rightarrow> uid \<Rightarrow> 64 word \<Rightarrow> (uid \<Rightarrow> 64 word \<Rightarrow> bytes \<Rightarrow> 's \<Rightarrow> error option \<times> 's)
     \<Rightarrow> 's \<Rightarrow> error option \<times> 's" where
  "store_ForEachMessage m lowID highID sfx fn st = visit_all fn (selected m lowID highID sfx) st"

section \<open>Messages\<close>

text \<open>
  \<open>types.Flags\<close> of the IMAP library is a Go \<open>int\<close> used as a bit set, with
  \<open>FlagSeen = 1 << 0\<close> and \<open>FlagRecent = 1 << 5\<close>; \<open>f.HasFlags(check)\<close> is
  \<open>f & check == check\<close>.
\<close>

type_synonym Flags = "64 word"

definition FlagSeen :: Flags where "FlagSeen = 1"
definition FlagRecent :: Flags where "FlagRecent = 32"

definition HasFlags :: "Flags \<Rightarrow> Flags \<Rightarrow> bool" where
  "HasFlags f check \<longleftrightarrow> f AND check = check"

text \<open>
  The fields of \<open>IMAPData\<close> and \<open>Bitmessage\<close> that the mailbox reads and writes. The
  received date is a \<open>time.Time\<close>, compared with \<open>!=\<close>: an integer here. The back pointer
  \<open>ImapData.Mailbox\<close> is left out. \<open>Encoding\<close> is what \<open>Payload.Encoding()\<close> returns and
  \<open>Content\<close> stands for the rest of the message.
\<close>

record IMAPData =
  UID :: uid
  SequenceNumber :: seqno
  Flags :: Flags
  DateReceived :: int

record Bitmessage =
  ImapData :: IMAPData
  Ack :: bytes
  AckReceived :: bool
  Encoding :: "64 word"
  Content :: bytes

text \<open>
  \<open>DecodeBitmessage\<close> and \<open>Bitmessage.Serialize\<close> are not part of the source at hand:
  every operation takes them as a parameter. Both return a value or an error; a failed
  decoding returns a \<open>nil\<close> message together with the error.
\<close>

record codec =
  DecodeBitmessage :: "bytes \<Rightarrow> error + Bitmessage"
  Serialize :: "Bitmessage \<Rightarrow> error + bytes"

section \<open>The IMAP mailbox\<close>

text \<open>
  What an operation does besides computing its result is recorded in the order it
  happens: the lines written to \<open>imapLog\<close>, the calls of the folder, and the index
  expressions \<open>box.uids[i]\<close> that are evaluated.
\<close>

datatype event =
    LogDecodeForImapFailed uid \<comment> \<open>"DecodeBitmessage for #%d failed: %v"\<close>
  | LogFailedToDecode uid \<comment> \<open>"Failed to decode message #%d: %v"\<close>
  | LogGetMessageError error \<comment> \<open>"Mailbox(%s).GetMessage gave error: %v"\<close>
  | LogUnexpectedSuffix uid "64 word" \<comment> \<open>"For message #%d expected suffix %d got %d"\<close>
  | LogDeleteMessageError uid error
  | LogInsertMessageError uid "64 word"
  | LogRefreshError error
  | CallNextID
  | CallLastIDBySuffix "64 word"
  | CallForEachMessage uid uid "64 word"
  | CallGetMessage uid
  | CallDeleteMessage uid
  | CallInsertMessage uid "64 word"
  | IndexUids nat

text \<open>
  \<^verbatim>\<open>
  type Mailbox struct {
      mbox         *store.Mailbox
      sync.RWMutex
      uids         []uint64
      numRecent, numUnseen, nextUID, lastUID uint32
  }
  \<close>
  The lock is left out: every operation runs alone here.
\<close>

record Mailbox =
  mbox :: store_Mailbox
  uids :: "uid list"
  numRecent :: seqno
  numUnseen :: seqno
  nextUID :: seqno
  lastUID :: seqno
  trace :: "event list"

definition emit :: "event \<Rightarrow> Mailbox \<Rightarrow> Mailbox" where
  "emit ev box = box\<lparr>trace := trace box @ [ev]\<rparr>"

text \<open>
  The index expression \<open>box.uids[i]\<close>: Go panics when \<open>i\<close> is not below the length.
\<close>

definition uids_at :: "Mailbox \<Rightarrow> nat \<Rightarrow> (error + uid) \<times> Mailbox" where
  "uids_at box i =
     (if i < length (uids box) then (Inr (uids box ! i), emit (IndexUids i) box)
      else (Inl PanicIndexOutOfRange, emit (IndexUids i) box))"

definition decodeBitmessageForImap ::
  "codec \<Rightarrow> Mailbox \<Rightarrow> uid \<Rightarrow> seqno \<Rightarrow> bytes \<Rightarrow> Bitmessage option \<times> Mailbox" where
  "decodeBitmessageForImap c box u seqno msg =
     (case DecodeBitmessage c msg of
        Inl err \<Rightarrow> (None, emit (LogDecodeForImapFailed u) box)
      | Inr b \<Rightarrow> (Some (b\<lparr>ImapData := (ImapData b)\<lparr>UID := u, SequenceNumber := seqno\<rparr>\<rparr>), box))"

text \<open>
  \<open>Refresh\<close> rebuilds the cached fields from a scan of the folder. The visitor of the
  scan counts in \<open>recent\<close> and \<open>unseen\<close> and collects the ids; when an entry does not
  decode it returns what \<open>imapLog.Errorf\<close> returns, the logged line as an error, so the
  enumeration ends there and \<open>Refresh\<close> returns that error before it assigns
  \<open>box.uids\<close>, \<open>box.numRecent\<close> and \<open>box.numUnseen\<close>.
\<close>

type_synonym refresh_state = "(seqno \<times> seqno \<times> uid list) \<times> Mailbox"

definition refresh_visit ::
  "codec \<Rightarrow> uid \<Rightarrow> 64 word \<Rightarrow> bytes \<Rightarrow> refresh_state \<Rightarrow> error option \<times> refresh_state" where
  "refresh_visit c i sfx msg st =
     (case st of ((recent, unseen, ids), box) \<Rightarrow>
        (case DecodeBitmessage c msg of
           Inl err \<Rightarrow> (Some ErrLogged, ((recent, unseen, ids), emit (LogFailedToDecode i) box))
         | Inr entry \<Rightarrow>
             (None,
              ((if HasFlags (Flags (ImapData entry)) FlagRecent then recent + 1 else recent,
                if \<not> HasFlags (Flags (ImapData entry)) FlagSeen then unseen + 1 else unseen,
                ids @ [i]),
               box))))"

definition Refresh :: "codec \<Rightarrow> Mailbox \<Rightarrow> error option \<times> Mailbox" where
  "Refresh c box =
     (let box1 = emit CallNextID box in
      case store_NextID (mbox box1) of
        Inl err \<Rightarrow> (Some err, box1)
      | Inr n \<Rightarrow>
          (let box2 = emit (CallLastIDBySuffix 2) (box1\<lparr>nextUID := ucast n\<rparr>) in
           case (case store_LastIDBySuffix (mbox box2) 2 of
                   Inl err \<Rightarrow> if err = ErrNotFound then Inr (ucast (nextUID box2)) else Inl err
                 | Inr l \<Rightarrow> Inr l) of
             Inl err \<Rightarrow> (Some err, box2)
           | Inr l \<Rightarrow>
               (let box3 = emit (CallForEachMessage 0 0 2) (box2\<lparr>lastUID := ucast l\<rparr>) in
                case store_ForEachMessage (mbox box3) 0 0 2 (refresh_visit c) ((0, 0, []), box3) of
                  (Some err, (st, box4)) \<Rightarrow> (Some err, box4)
                | (None, ((recent, unseen, ids), box4)) \<Rightarrow>
                    (None, box4\<lparr>uids := ids, numRecent := recent, numUnseen := unseen\<rparr>))))"

definition NextUID :: "Mailbox \<Rightarrow> seqno" where
  "NextUID box = nextUID box"

definition LastUID :: "Mailbox \<Rightarrow> seqno" where
  "LastUID box = lastUID box"

definition Recent :: "Mailbox \<Rightarrow> seqno" where
  "Recent box = numRecent box"

text \<open>\<open>messages\<close> is \<open>uint32(len(box.uids))\<close>.\<close>

definition messages :: "Mailbox \<Rightarrow> seqno" where
  "messages box = word_of_nat (length (uids box))"

definition Messages :: "Mailbox \<Rightarrow> seqno" where
  "Messages box = messages box"

definition Unseen :: "Mailbox \<Rightarrow> seqno" where
  "Unseen box = numUnseen box"

definition bmsgByUID :: "codec \<Rightarrow> Mailbox \<Rightarrow> uid \<Rightarrow> Bitmessage option \<times> Mailbox" where
  "bmsgByUID c box u =
     (let box1 = emit (CallGetMessage u) box in
      case store_GetMessage (mbox box1) u of
        Inl err \<Rightarrow> (None, emit (LogGetMessageError err) box1)
      | Inr (sfx, msg) \<Rightarrow>
          if sfx \<noteq> 2 then (None, emit (LogUnexpectedSuffix u sfx) box1)
          else decodeBitmessageForImap c box1 u (GetSequenceNumber (uids box1) u) msg)"

definition BitmessageByUID :: "codec \<Rightarrow> Mailbox \<Rightarrow> uid \<Rightarrow> Bitmessage option \<times> Mailbox" where
  "BitmessageByUID c box u = bmsgByUID c box u"

text \<open>
  An operation that evaluates an index expression can panic: its result is \<open>Inl\<close> of the
  panic or \<open>Inr\<close> of what it returns. A \<open>*Bitmessage\<close> may be \<open>nil\<close>: \<open>None\<close>.
\<close>

definition BitmessageBySequenceNumber ::
  "codec \<Rightarrow> Mailbox \<Rightarrow> seqno \<Rightarrow> (error + Bitmessage option) \<times> Mailbox" where
  "BitmessageBySequenceNumber c box seqno =
     (if seqno < 1 \<or> seqno > messages box then (Inr None, box)
      else case uids_at box (unat (seqno - 1)) of
        (Inl p, box1) \<Rightarrow> (Inl p, box1)
      | (Inr u, box1) \<Rightarrow> (case bmsgByUID c box1 u of (r, box2) \<Rightarrow> (Inr r, box2)))"

definition LastBitmessage :: "codec \<Rightarrow> Mailbox \<Rightarrow> (error + Bitmessage option) \<times> Mailbox" where
  "LastBitmessage c box =
     (if messages box = 0 then (Inr None, box)
      else case uids_at box (length (uids box) - 1) of
        (Inl p, box1) \<Rightarrow> (Inl p, box1)
      | (Inr u, box1) \<Rightarrow> (case bmsgByUID c box1 u of (r, box2) \<Rightarrow> (Inr r, box2)))"

text \<open>
  \<open>getRange\<close>: the visitor numbers the messages that decode from \<open>startSequence\<close> on
  (\<open>i\<close> is a \<open>uint32\<close>) and skips an entry that does not decode, which
  \<open>decodeBitmessageForImap\<close> has logged. \<open>endSequence\<close> only sizes the capacity of the
  result. A \<open>nil\<close> result slice is \<open>None\<close>.
\<close>

type_synonym range_state = "(seqno \<times> Bitmessage list) \<times> Mailbox"

definition range_visit ::
  "codec \<Rightarrow> seqno \<Rightarrow> uid \<Rightarrow> 64 word \<Rightarrow> bytes \<Rightarrow> range_state \<Rightarrow> error option \<times> range_state" where
  "range_visit c startSequence i sfx msg st =
     (case st of ((k, bitmessages), box) \<Rightarrow>
        (case decodeBitmessageForImap c box i (startSequence + k) msg of
           (None, box1) \<Rightarrow> (None, ((k, bitmessages), box1))
         | (Some bm, box1) \<Rightarrow> (None, ((k + 1, bitmessages @ [bm]), box1))))"

definition getRange ::
  "codec \<Rightarrow> Mailbox \<Rightarrow> uid \<Rightarrow> uid \<Rightarrow> seqno \<Rightarrow> seqno \<Rightarrow> Bitmessage list option \<times> Mailbox" where
  "getRange c box startUID endUID startSequence endSequence =
     (let box1 = emit (CallForEachMessage startUID endUID 2) box in
      case store_ForEachMessage (mbox box1) startUID endUID 2 (range_visit c startSequence)
             ((0, []), box1) of
        (Some err, (st, box2)) \<Rightarrow> (None, box2)
      | (None, ((k, bitmessages), box2)) \<Rightarrow> (Some bitmessages, box2))"

definition getSince ::
  "codec \<Rightarrow> Mailbox \<Rightarrow> uid \<Rightarrow> seqno \<Rightarrow> Bitmessage list option \<times> Mailbox" where
  "getSince c box startUID startSequence =
     getRange c box startUID 0 startSequence (messages box)"

definition BitmessagesBySequenceRange ::
  "codec \<Rightarrow> Mailbox \<Rightarrow> seqno \<Rightarrow> seqno \<Rightarrow> (error + Bitmessage list option) \<times> Mailbox" where
  "BitmessagesBySequenceRange c box start finish =
     (if start < 1 \<or> start > messages box \<or> finish < 1 \<or> finish > messages box \<or> finish < start
      then (Inr None, box)
      else case uids_at box (unat start) of
        (Inl p, box1) \<Rightarrow> (Inl p, box1)
      | (Inr startUID, box1) \<Rightarrow>
          (case uids_at box1 (unat finish) of
             (Inl p, box2) \<Rightarrow> (Inl p, box2)
           | (Inr endUID, box2) \<Rightarrow>
               (case getRange c box2 startUID endUID start finish of (r, box3) \<Rightarrow> (Inr r, box3))))"

definition BitmessagesSinceSequenceNumber ::
  "codec \<Rightarrow> Mailbox \<Rightarrow> seqno \<Rightarrow> (error + Bitmessage list option) \<times> Mailbox" where
  "BitmessagesSinceSequenceNumber c box start =
     (if start < 1 \<or> start > Messages box then (Inr None, box)
      else case uids_at box (unat start) of
        (Inl p, box1) \<Rightarrow> (Inl p, box1)
      | (Inr startUID, box1) \<Rightarrow>
          (case getSince c box1 startUID start of (r, box2) \<Rightarrow> (Inr r, box2)))"

text \<open>
  A \<open>types.SequenceSet\<close> of the IMAP library is a list of ranges; each bound of a range
  is absent (\<open>Nil\<close>), the star (\<open>Last\<close>), or text that \<open>Value\<close> parses as a \<open>uint32\<close>
  or rejects.
\<close>

datatype SequenceNumber = SeqNil | SeqLast | SeqValue seqno | SeqMalformed

fun seq_Value :: "SequenceNumber \<Rightarrow> error + seqno" where
  "seq_Value (SeqValue n) = Inr n"
| "seq_Value s = Inl ErrBadSequenceNumber"

record SequenceRange =
  range_Min :: SequenceNumber
  range_Max :: SequenceNumber

text \<open>
  \<open>BitmessageSetBySequenceNumber\<close>: one round of its loop either goes on to the next
  range with the messages collected so far (\<open>Continue\<close>) or returns them (\<open>Return\<close>).
  The result slice holds \<open>nil\<close> for a message that could not be fetched; appending a
  \<open>nil\<close> slice appends nothing.
\<close>

datatype loop_exit = Continue | Return

fun slice_of :: "'a list option \<Rightarrow> 'a list" where
  "slice_of None = []"
| "slice_of (Some xs) = xs"

definition set_by_seq_round ::
  "codec \<Rightarrow> Mailbox \<Rightarrow> Bitmessage option list \<Rightarrow> SequenceRange
     \<Rightarrow> (error + loop_exit \<times> Bitmessage option list) \<times> Mailbox" where
  "set_by_seq_round c box msgs msgRange =
     (if range_Min msgRange = SeqLast then
        (case LastBitmessage c box of
           (Inl p, box1) \<Rightarrow> (Inl p, box1)
         | (Inr m, box1) \<Rightarrow> (Inr (Continue, msgs @ [m]), box1))
      else case seq_Value (range_Min msgRange) of
        Inl err \<Rightarrow> (Inr (Return, msgs), box)
      | Inr startIndex \<Rightarrow>
          if startIndex < 1 \<or> startIndex > Messages box then (Inr (Return, msgs), box)
          else case uids_at box (unat (startIndex - 1)) of
            (Inl p, box1) \<Rightarrow> (Inl p, box1)
          | (Inr u, box1) \<Rightarrow>
              (let start = (ucast u :: seqno) in
               if range_Max msgRange = SeqNil then
                 (case BitmessageBySequenceNumber c box1 start of
                    (Inl p, box2) \<Rightarrow> (Inl p, box2)
                  | (Inr m, box2) \<Rightarrow> (Inr (Continue, msgs @ [m]), box2))
               else if range_Max msgRange = SeqLast then
                 (case BitmessagesSinceSequenceNumber c box1 start of
                    (Inl p, box2) \<Rightarrow> (Inl p, box2)
                  | (Inr ms, box2) \<Rightarrow> (Inr (Continue, msgs @ map Some (slice_of ms)), box2))
               else case seq_Value (range_Max msgRange) of
                 Inl err \<Rightarrow> (Inr (Return, msgs), box1)
               | Inr finish \<Rightarrow>
                   (case BitmessagesBySequenceRange c box1 start finish of
                      (Inl p, box2) \<Rightarrow> (Inl p, box2)
                    | (Inr ms, box2) \<Rightarrow> (Inr (Continue, msgs @ map Some (slice_of ms)), box2))))"

fun set_by_seq_loop ::
  "codec \<Rightarrow> SequenceRange list \<Rightarrow> Bitmessage option list \<Rightarrow> Mailbox
     \<Rightarrow> (error + Bitmessage option list) \<times> Mailbox" where
  "set_by_seq_loop c [] msgs box = (Inr msgs, box)"
| "set_by_seq_loop c (r # rs) msgs box =
     (case set_by_seq_round c box msgs r of
        (Inl p, box1) \<Rightarrow> (Inl p, box1)
      | (Inr (Return, msgs1), box1) \<Rightarrow> (Inr msgs1, box1)
      | (Inr (Continue, msgs1), box1) \<Rightarrow> set_by_seq_loop c rs msgs1 box1)"

definition BitmessageSetBySequenceNumber ::
  "codec \<Rightarrow> Mailbox \<Rightarrow> SequenceRange list \<Rightarrow> (error + Bitmessage option list) \<times> Mailbox" where
  "BitmessageSetBySequenceNumber c box ranges =
     (if Messages box = 0 then (Inr [], box) else set_by_seq_loop c ranges [] box)"

text \<open>
  \<open>SaveBitmessage\<close>. \<open>SaveBitmessage_replace\<close> is the block under
  \<open>if msg.ImapData.UID != 0\<close>, which checks the stored version and deletes it. The
  message is passed by pointer and its uid is assigned: the operation returns the message
  as it leaves it.
\<close>

definition SaveBitmessage_replace ::
  "codec \<Rightarrow> Mailbox \<Rightarrow> Bitmessage \<Rightarrow> error option \<times> Mailbox" where
  "SaveBitmessage_replace c box msg =
     (case BitmessageByUID c box (UID (ImapData msg)) of
        (None, box1) \<Rightarrow> (Some ErrInvalidSequenceNumber, box1)
      | (Some previous, box1) \<Rightarrow>
          if UID (ImapData previous) \<noteq> UID (ImapData msg) then (Some ErrInvalidUid, box1)
          else if DateReceived (ImapData previous) \<noteq> DateReceived (ImapData msg)
          then (Some ErrCannotChangeDate, box1)
          else
            (let box2 = emit (CallDeleteMessage (UID (ImapData msg))) box1 in
             case store_DeleteMessage (mbox box2) (UID (ImapData msg)) of
               (Some err, m) \<Rightarrow>
                 (Some err, emit (LogDeleteMessageError (UID (ImapData msg)) err) (box2\<lparr>mbox := m\<rparr>))
             | (None, m) \<Rightarrow> (None, box2\<lparr>mbox := m\<rparr>)))"

definition SaveBitmessage ::
  "codec \<Rightarrow> Mailbox \<Rightarrow> Bitmessage \<Rightarrow> error option \<times> Bitmessage \<times> Mailbox" where
  "SaveBitmessage c box msg =
     (case (if UID (ImapData msg) \<noteq> 0 then SaveBitmessage_replace c box msg else (None, box)) of
        (Some err, box1) \<Rightarrow> (Some err, msg, box1)
      | (None, box1) \<Rightarrow>
          (case Serialize c msg of
             Inl err \<Rightarrow> (Some err, msg, box1)
           | Inr encode \<Rightarrow>
               (let box2 = emit (CallInsertMessage (UID (ImapData msg)) (Encoding msg)) box1 in
                case store_InsertMessage (mbox box2) encode (UID (ImapData msg)) (Encoding msg) of
                  (Inl err, m) \<Rightarrow>
                    (Some err, msg,
                     emit (LogInsertMessageError (UID (ImapData msg)) (Encoding msg))
                       (box2\<lparr>mbox := m\<rparr>))
                | (Inr newUID, m) \<Rightarrow>
                    (let msg1 = msg\<lparr>ImapData := (ImapData msg)\<lparr>UID := newUID\<rparr>\<rparr> in
                     case Refresh c (box2\<lparr>mbox := m\<rparr>) of
                       (Some err, box3) \<Rightarrow> (Some err, msg1, emit (LogRefreshError err) box3)
                     | (None, box3) \<Rightarrow> (None, msg1, box3)))))"

text \<open>
  \<open>ReceiveAck\<close>. The visitor keeps the match in \<open>ackMatch\<close>; it returns the decoding
  error of an entry that does not decode and \<open>errAckFound\<close> at a match, and either ends
  the enumeration. What \<open>ForEachMessage\<close> and \<open>SaveBitmessage\<close> return is not looked at.
\<close>

definition ack_visit ::
  "codec \<Rightarrow> bytes \<Rightarrow> uid \<Rightarrow> 64 word \<Rightarrow> bytes \<Rightarrow> Bitmessage option
     \<Rightarrow> error option \<times> Bitmessage option" where
  "ack_visit c ack i sfx msg ackMatch =
     (case DecodeBitmessage c msg of
        Inl err \<Rightarrow> (Some err, ackMatch)
      | Inr entry \<Rightarrow> if Ack entry = ack then (Some ErrAckFound, Some entry) else (None, ackMatch))"

definition ack_scan :: "codec \<Rightarrow> Mailbox \<Rightarrow> bytes \<Rightarrow> Bitmessage option" where
  "ack_scan c box ack = snd (store_ForEachMessage (mbox box) 0 0 2 (ack_visit c ack) None)"

definition ReceiveAck :: "codec \<Rightarrow> Mailbox \<Rightarrow> bytes \<Rightarrow> Bitmessage option \<times> Mailbox" where
  "ReceiveAck c box ack =
     (let box1 = emit (CallForEachMessage 0 0 2) box in
      case ack_scan c box1 ack of
        None \<Rightarrow> (None, box1)
      | Some ackMatch \<Rightarrow>
          (case SaveBitmessage c box1 (ackMatch\<lparr>AckReceived := True\<rparr>) of
             (err, saved, box2) \<Rightarrow> (Some saved, box2)))"

text \<open>\<open>NewMailbox\<close> wraps a folder and refreshes; before that the cached fields are zero.\<close>

definition blank_Mailbox :: "store_Mailbox \<Rightarrow> Mailbox" where
  "blank_Mailbox m =
     \<lparr>mbox = m, uids = [], numRecent = 0, numUnseen = 0, nextUID = 0, lastUID = 0, trace = []\<rparr>"

definition NewMailbox :: "codec \<Rightarrow> store_Mailbox \<Rightarrow> error + Mailbox" where
  "NewMailbox c m =
     (case Refresh c (blank_Mailbox m) of
        (Some err, box) \<Rightarrow> Inl err
      | (None, box) \<Rightarrow> Inr box)"

section \<open>A small codec for running examples\<close>

text \<open>
  A payload of this codec is a byte for the ack-received flag, a byte of IMAP flags, a
  byte for the received date and then the ack bytes; anything shorter does not decode.
\<close>

definition example_decode :: "bytes \<Rightarrow> error + Bitmessage" where
  "example_decode msg =
     (case msg of
        r # f # d # ack \<Rightarrow>
          Inr \<lparr>ImapData = \<lparr>UID = 0, SequenceNumber = 0, Flags = ucast f, DateReceived = uint d\<rparr>,
               Ack = ack, AckReceived = (r \<noteq> 0), Encoding = 2, Content = []\<rparr>
      | _ \<Rightarrow> Inl ErrDecode)"

definition example_serialize :: "Bitmessage \<Rightarrow> error + bytes" where
  "example_serialize b =
     Inr ((if AckReceived b then 1 else 0) # ucast (Flags (ImapData b))
          # word_of_int (DateReceived (ImapData b)) # Ack b)"

definition example_codec :: codec where
  "example_codec = \<lparr>DecodeBitmessage = example_decode, Serialize = example_serialize\<rparr>"

text \<open>The same codec with a serializer that fails.\<close>

definition failing_codec :: codec where
  "failing_codec = \<lparr>DecodeBitmessage = example_decode, Serialize = (\<lambda>b. Inl ErrSerialize)\<rparr>"

text \<open>A folder of three messages with the ids 1, 2 and 3, and its mailbox.\<close>

definition three_messages :: store_Mailbox where
  "three_messages =
     \<lparr>mb_name = ''INBOX'', mb_next = 4,
      mb_entries = [(1, 2, [0, 32, 7, 11]), (2, 2, [0, 32, 8, 12]), (3, 2, [0, 32, 9, 13])]\<rparr>"

definition three_box :: Mailbox where
  "three_box =
     \<lparr>mbox = three_messages, uids = [1, 2, 3], numRecent = 3, numUnseen = 3,
      nextUID = 4, lastUID = 3, trace = []\<rparr>"

text \<open>The events an operation added to the trace, and the test for an index event.\<close>

definition new_events :: "Mailbox \<Rightarrow> Mailbox \<Rightarrow> event list" where
  "new_events box box' = drop (length (trace box)) (trace box')"

fun is_IndexUids :: "event \<Rightarrow> bool" where
  "is_IndexUids (IndexUids i) = True"
| "is_IndexUids ev = False"

fun is_store_call :: "event \<Rightarrow> bool" where
  "is_store_call CallNextID = True"
| "is_store_call (CallLastIDBySuffix s) = True"
| "is_store_call (CallForEachMessage l h s) = True"
| "is_store_call (CallGetMessage u) = True"
| "is_store_call (CallDeleteMessage u) = True"
| "is_store_call (CallInsertMessage u s) = True"
| "is_store_call ev = False"

text \<open>The ids of the entries of a list that decode, and of those that do not.\<close>

definition decodable :: "codec \<Rightarrow> entry list \<Rightarrow> uid list" where
  "decodable c es = map fst (filter (\<lambda>(i, s, p). \<not> isl (DecodeBitmessage c p)) es)"

definition undecodable :: "codec \<Rightarrow> entry list \<Rightarrow> uid list" where
  "undecodable c es = map fst (filter (\<lambda>(i, s, p). isl (DecodeBitmessage c p)) es)"

text \<open>
  The table of a folder after the entry at an id has been replaced by a new payload.
\<close>

definition replaced :: "entry list \<Rightarrow> uid \<Rightarrow> 64 word \<Rightarrow> bytes \<Rightarrow> entry list" where
  "replaced es u sfx enc = insort_key fst (u, sfx, enc) (filter (\<lambda>e. fst e \<noteq> u) es)"

section \<open>The encrypted store\<close>

text \<open>
  Modelled from the spec: the encrypted store (\<open>store.Open\<close>, \<open>Store.Close\<close>,
  \<open>Store.ChangePassphrase\<close>), of which the source holds only the test \<open>TestOpenClose\<close>.
  The file either has no content yet or holds the counters and folders encrypted under a
  key derived from a passphrase; content encrypted under one passphrase is unlocked by
  that passphrase and by no other. \<open>Open\<close> creates the store when the file has no
  content and fails with \<open>DecryptionFailed\<close> when the content exists and the passphrase
  does not unlock it; \<open>ChangePassphrase\<close> re-encrypts the whole store under the new
  passphrase; \<open>Close\<close> flushes to the file.
\<close>

text \<open>
  Modelled from the spec: the content of the store's file, with the passphrase it is
  encrypted under.
\<close>

record sealed =
  sealed_under :: bytes
  sealed_counters :: "64 word \<rightharpoonup> 64 word"
  sealed_folders :: "string \<rightharpoonup> store_Mailbox"

type_synonym store_file = "sealed option"

text \<open>Modelled from the spec: an open store, with the passphrase it holds.\<close>

record Store =
  passphrase :: bytes
  counters :: "64 word \<rightharpoonup> 64 word"
  folders :: "string \<rightharpoonup> store_Mailbox"

text \<open>
  Modelled from the spec: decryption of the file's content, which only the passphrase it is
  encrypted under performs.
\<close>

definition unlock :: "bytes \<Rightarrow> sealed \<Rightarrow> Store option" where
  "unlock pass s =
     (if sealed_under s = pass
      then Some \<lparr>passphrase = pass, counters = sealed_counters s, folders = sealed_folders s\<rparr>
      else None)"

text \<open>Modelled from the spec: \<open>store.Open\<close>, missing from the source.\<close>

definition Open :: "store_file \<Rightarrow> bytes \<Rightarrow> error + Store" where
  "Open file pass =
     (case file of
        None \<Rightarrow> Inr \<lparr>passphrase = pass, counters = Map.empty, folders = Map.empty\<rparr>
      | Some s \<Rightarrow> (case unlock pass s of None \<Rightarrow> Inl ErrDecryptionFailed | Some st \<Rightarrow> Inr st))"

text \<open>Modelled from the spec: \<open>Store.Close\<close>, missing from the source.\<close>

definition Close :: "Store \<Rightarrow> store_file" where
  "Close st =
     Some \<lparr>sealed_under = passphrase st, sealed_counters = counters st,
           sealed_folders = folders st\<rparr>"

text \<open>Modelled from the spec: \<open>Store.ChangePassphrase\<close>, missing from the source.\<close>

definition ChangePassphrase :: "Store \<Rightarrow> bytes \<Rightarrow> Store" where
  "ChangePassphrase st new = st\<lparr>passphrase := new\<rparr>"

text \<open>
  The passphrases of \<open>TestOpenClose\<close>, \<open>[]byte("password")\<close> and
  \<open>[]byte("new_password")\<close>, and a store that has been opened with the first and holds
  one counter.
\<close>

definition pass :: bytes where
  "pass = [112, 97, 115, 115, 119, 111, 114, 100]"

definition passNew :: bytes where
  "passNew = [110, 101, 119, 95, 112, 97, 115, 115, 119, 111, 114, 100]"

definition opened_store :: Store where
  "opened_store = \<lparr>passphrase = pass, counters = [0 \<mapsto> 34], folders = Map.empty\<rparr>"

text \<open>
  A folder whose two entries carry the suffix 1; a folder that has allocated every id
  below \<open>2 ^ 32\<close> and holds no entry; and the folder of three messages with a second entry
  that does not decode, with a mailbox that was refreshed before that entry was inserted.
\<close>

definition other_suffix :: store_Mailbox where
  "other_suffix =
     \<lparr>mb_name = ''Pending'', mb_next = 3, mb_entries = [(1, 1, [5]), (2, 1, [6])]\<rparr>"

definition long_lived :: store_Mailbox where
  "long_lived = \<lparr>mb_name = ''INBOX'', mb_next = 4294967296, mb_entries = []\<rparr>"

definition damaged_messages :: store_Mailbox where
  "damaged_messages =
     \<lparr>mb_name = ''INBOX'', mb_next = 4,
      mb_entries = [(1, 2, [0, 32, 7, 11]), (2, 2, [9]), (3, 2, [0, 32, 9, 13])]\<rparr>"

definition damaged_box :: Mailbox where
  "damaged_box =
     \<lparr>mbox = damaged_messages, uids = [1, 3], numRecent = 2, numUnseen = 2,
      nextUID = 4, lastUID = 3, trace = []\<rparr>"

text \<open>A message to save, with a given uid and received date.\<close>

definition example_message :: "uid \<Rightarrow> int \<Rightarrow> Bitmessage" where
  "example_message u d =
     \<lparr>ImapData = \<lparr>UID = u, SequenceNumber = 2, Flags = 33, DateReceived = d\<rparr>,
      Ack = [12], AckReceived = False, Encoding = 2, Content = []\<rparr>"

section \<open>Properties of the uid lookup\<close>

lemma GetSequenceNumber_loop_none:
  "\<forall>u \<in> set us. u < uid \<Longrightarrow> GetSequenceNumber_loop i us uid = 0"
  by (induction us arbitrary: i) auto

lemma GetSequenceNumber_loop_first:
  "k < length us \<Longrightarrow> uid \<le> us ! k \<Longrightarrow> \<forall>j<k. us ! j < uid \<Longrightarrow>
     GetSequenceNumber_loop i us uid = word_of_nat (i + k + 1)"
proof (induction us arbitrary: i k)
  case Nil
  then show ?case by simp
next
  case (Cons u us)
  show ?case
  proof (cases k)
    case 0
    with Cons.prems have "uid \<le> u" by simp
    then show ?thesis using 0 by (auto simp: not_less)
  next
    case (Suc k')
    with Cons.prems have lt: "u < uid" by auto
    have k': "k' < length us" "uid \<le> us ! k'" using Cons.prems Suc by auto
    have "\<forall>j<k'. us ! j < uid"
    proof (intro allI impI)
      fix j assume "j < k'"
      then have "Suc j < k" using Suc by simp
      with Cons.prems(3) have "(u # us) ! Suc j < uid" by blast
      then show "us ! j < uid" by simp
    qed
    with Cons.IH [of k' "Suc i"] k'
    have "GetSequenceNumber_loop (Suc i) us uid = word_of_nat (Suc i + k' + 1)" by simp
    with lt Suc show ?thesis by (auto simp: not_less)
  qed
qed

lemma GetSequenceNumber_first:
  assumes "k < length us" "uid \<le> us ! k" "\<forall>j<k. us ! j < uid"
  shows "GetSequenceNumber us uid = word_of_nat (k + 1)"
  using GetSequenceNumber_loop_first [OF assms, of 0] assms(1)
  by (auto simp: GetSequenceNumber_def)

lemma unat_seqno_of_nat: "n < 2 ^ 32 \<Longrightarrow> unat (word_of_nat n :: seqno) = n"
  by (simp add: unat_of_nat)

lemma first_ge_exists:
  fixes uid :: uid
  assumes "\<exists>u \<in> set us. uid \<le> u"
  shows "\<exists>k<length us. uid \<le> us ! k \<and> (\<forall>j<k. us ! j < uid)"
proof -
  define P where "P k \<longleftrightarrow> k < length us \<and> uid \<le> us ! k" for k
  from assms obtain k0 where "P k0" by (auto simp: P_def in_set_conv_nth)
  then have "P (LEAST k. P k)" by (rule LeastI)
  moreover have "\<forall>j<(LEAST k. P k). us ! j < uid"
  proof (intro allI impI)
    fix j assume j: "j < (LEAST k. P k)"
    then have "\<not> P j" by (rule not_less_Least)
    moreover have "j < length us" using j \<open>P (LEAST k. P k)\<close> by (simp add: P_def)
    ultimately show "us ! j < uid" by (simp add: P_def not_le)
  qed
  ultimately show ?thesis by (auto simp: P_def)
qed

text \<open>
  C2 (as amended). For every ascending duplicate-free uid list with fewer than \<open>2 ^ 32\<close>
  elements and every uid: when \<open>k\<close> is the index of the first element greater than or
  equal to the uid, \<open>GetSequenceNumber\<close> returns the 1-based position \<open>k + 1\<close>; and it
  returns 0 if and only if the list is empty or the uid strictly exceeds every element. The
  theorem holds of every list of that length, ascending or not.
\<close>

theorem GetSequenceNumber_position:
  "length us < 2 ^ 32 \<Longrightarrow>
     (\<forall>k. k < length us \<and> uid \<le> us ! k \<and> (\<forall>j<k. us ! j < uid)
          \<longrightarrow> unat (GetSequenceNumber us uid) = k + 1)
   \<and> (GetSequenceNumber us uid = 0 \<longleftrightarrow> us = [] \<or> (\<forall>u \<in> set us. u < uid))"
proof -
  assume len: "length us < 2 ^ 32"
  have pos: "unat (GetSequenceNumber us uid) = k + 1"
    if "k < length us" "uid \<le> us ! k" "\<forall>j<k. us ! j < uid" for k
  proof -
    have "GetSequenceNumber us uid = word_of_nat (k + 1)"
      using that by (rule GetSequenceNumber_first)
    moreover have "k + 1 < 2 ^ 32" using that(1) len by simp
    then have "unat (word_of_nat (k + 1) :: seqno) = k + 1"
      by (rule unat_seqno_of_nat)
    ultimately show ?thesis by (simp only:)
  qed
  have zero: "GetSequenceNumber us uid = 0 \<longleftrightarrow> us = [] \<or> (\<forall>u \<in> set us. u < uid)"
  proof (cases "\<exists>u \<in> set us. uid \<le> u")
    case True
    then obtain k where k: "k < length us" "uid \<le> us ! k" "\<forall>j<k. us ! j < uid"
      using first_ge_exists by blast
    then have "unat (GetSequenceNumber us uid) = k + 1" by (rule pos)
    then have "GetSequenceNumber us uid \<noteq> 0" by auto
    moreover have "us \<noteq> []" using k(1) by auto
    moreover have "\<not> (\<forall>u \<in> set us. u < uid)" using True by (auto simp: not_less)
    ultimately show ?thesis by simp
  next
    case False
    then have "\<forall>u \<in> set us. u < uid" by (auto simp: not_le)
    then show ?thesis
      by (simp add: GetSequenceNumber_def GetSequenceNumber_loop_none)
  qed
  show ?thesis using pos zero by blast
qed

lemma length_ids_upto: "length (ids_upto n) = n"
  by (simp add: ids_upto_def)

lemma nth_ids_upto: "i < n \<Longrightarrow> ids_upto n ! i = word_of_nat (Suc i)"
  unfolding ids_upto_def by (simp del: upt_Suc)

lemma uid_of_nat_less: "i < j \<Longrightarrow> j < 2 ^ 64 \<Longrightarrow> (word_of_nat i :: uid) < word_of_nat j"
  by (simp add: word_less_nat_alt unat_of_nat)

lemma sorted_ids_upto: "n < 2 ^ 64 \<Longrightarrow> sorted_wrt (<) (ids_upto n)"
proof -
  assume n: "n < 2 ^ 64"
  have "ids_upto n ! i < ids_upto n ! j" if "i < j" "j < n" for i j
  proof -
    have "(word_of_nat (Suc i) :: uid) < word_of_nat (Suc j)"
      by (rule uid_of_nat_less) (use that n in auto)
    then show ?thesis using that by (simp only: nth_ids_upto less_trans [OF that])
  qed
  then show ?thesis by (simp add: sorted_wrt_iff_nth_less length_ids_upto)
qed

lemma GetSequenceNumber_ids_upto:
  assumes "0 < n" "n < 2 ^ 64"
  shows "GetSequenceNumber (ids_upto n) (word_of_nat n) = word_of_nat n"
proof -
  have "GetSequenceNumber (ids_upto n) (word_of_nat n) = word_of_nat ((n - 1) + 1)"
  proof (rule GetSequenceNumber_first)
    show "n - 1 < length (ids_upto n)" using assms by (simp add: length_ids_upto)
    show "word_of_nat n \<le> ids_upto n ! (n - 1)" using assms by (simp add: nth_ids_upto)
    show "\<forall>j<n - 1. ids_upto n ! j < word_of_nat n"
    proof (intro allI impI)
      fix j assume "j < n - 1"
      then have "j < n" "Suc j < n" by auto
      then show "ids_upto n ! j < word_of_nat n"
        using assms(2) by (simp only: nth_ids_upto uid_of_nat_less)
    qed
  qed
  then show ?thesis using assms by simp
qed

theorem GetSequenceNumber_position_witness:
  "length [3, 5, 9 :: uid] < 2 ^ 32
   \<and> unat (GetSequenceNumber [3, 5, 9] 4) = 2
   \<and> GetSequenceNumber [3, 5, 9] 10 = 0"
  using GetSequenceNumber_position [of "[3, 5, 9]" 4]
        GetSequenceNumber_position [of "[3, 5, 9]" 10]
  by (simp add: GetSequenceNumber_def)

text \<open>
  C2 as it is stated fails on a list of \<open>2 ^ 32\<close> uids: the list \<open>1, \<dots>, 2 ^ 32\<close> is
  ascending and duplicate-free, its last element is the uid \<open>2 ^ 32\<close>, so the uid does not
  exceed every element; its position \<open>2 ^ 32\<close> does not fit the \<open>uint32\<close> result, and
  the conversion \<open>uint32(i + 1)\<close> gives 0.
\<close>

theorem GetSequenceNumber_wraps_counterexample:
  "sorted_wrt (<) (ids_upto (2 ^ 32)) \<and> distinct (ids_upto (2 ^ 32))
   \<and> ids_upto (2 ^ 32) \<noteq> []
   \<and> ids_upto (2 ^ 32) ! (2 ^ 32 - 1) = 4294967296
   \<and> GetSequenceNumber (ids_upto (2 ^ 32)) 4294967296 = 0"
proof -
  have s: "sorted_wrt (<) (ids_upto (2 ^ 32))" by (rule sorted_ids_upto) simp
  then have d: "distinct (ids_upto (2 ^ 32))" by (simp only: strict_sorted_iff)
  have "length (ids_upto (2 ^ 32)) \<noteq> 0" by (simp only: length_ids_upto) simp
  then have ne: "ids_upto (2 ^ 32) \<noteq> []" by simp
  have "ids_upto (2 ^ 32) ! (2 ^ 32 - 1) = word_of_nat (Suc (2 ^ 32 - 1))"
    by (rule nth_ids_upto) simp
  then have l: "ids_upto (2 ^ 32) ! (2 ^ 32 - 1) = 4294967296" by simp
  have "GetSequenceNumber (ids_upto (2 ^ 32)) (word_of_nat (2 ^ 32)) = (word_of_nat (2 ^ 32) :: seqno)"
    by (rule GetSequenceNumber_ids_upto) simp_all
  then have g: "GetSequenceNumber (ids_upto (2 ^ 32)) 4294967296 = 0" by simp
  show ?thesis using s d ne l g by (simp only: simp_thms)
qed

section \<open>Properties of the reference folder\<close>

text \<open>
  C5 (as amended). For every folder and every id: \<open>GetMessage\<close> never fails with
  \<open>ErrInvalidID\<close>; it fails with \<open>ErrNotFound\<close> if and only if the id is 0, or is at or
  beyond the next-id bound, or no entry is present at it. \<open>DeleteMessage\<close> fails with
  \<open>ErrInvalidID\<close> if and only if the id is 0 or at or beyond the next-id bound, and with
  \<open>ErrNotFound\<close> if and only if the id is in \<open>[1, NextID)\<close> and no entry is present at it.
\<close>

theorem folder_id_errors:
  "tf_GetMessage f i \<noteq> Inl ErrInvalidID
   \<and> (tf_GetMessage f i = Inl ErrNotFound
        \<longleftrightarrow> i = 0 \<or> i \<ge> tf_NextID f \<or> tf_messages f i = None)
   \<and> (fst (tf_DeleteMessage f i) = Some ErrInvalidID \<longleftrightarrow> i = 0 \<or> i \<ge> tf_NextID f)
   \<and> (fst (tf_DeleteMessage f i) = Some ErrNotFound
        \<longleftrightarrow> 1 \<le> i \<and> i < tf_NextID f \<and> tf_messages f i = None)"
proof -
  have one: "1 \<le> i \<longleftrightarrow> i \<noteq> 0" by (simp add: word_le_nat_alt unat_eq_0 Suc_le_eq unat_gt_0)
  show ?thesis
    by (auto simp: tf_GetMessage_def tf_DeleteMessage_def tf_NextID_def one not_le
             split: option.splits)
qed

theorem folder_id_errors_witness:
  "tf_GetMessage (snd (tf_InsertNewMessage (GetFolder ''f'') (Some [1]) 2)) 1 = Inr (2, [1])
   \<and> tf_GetMessage (snd (tf_InsertNewMessage (GetFolder ''f'') (Some [1]) 2)) 2 = Inl ErrNotFound
   \<and> fst (tf_DeleteMessage (snd (tf_InsertNewMessage (GetFolder ''f'') (Some [1]) 2)) 2)
       = Some ErrInvalidID"
  using folder_id_errors [of "snd (tf_InsertNewMessage (GetFolder ''f'') (Some [1]) 2)" 2]
  by (simp add: tf_GetMessage_def tf_DeleteMessage_def tf_InsertNewMessage_def GetFolder_def
      tf_NextID_def word_le_nat_alt)

text \<open>
  C5 as it is stated fails for \<open>GetMessage\<close>: on a new folder, whose next-id bound is 1,
  the ids 0 and 1 are both answered with \<open>ErrNotFound\<close>, which is also what
  \<open>testInvalidIndex\<close> asserts of every folder implementation.
\<close>

theorem GetMessage_InvalidID_counterexample:
  "tf_NextID (GetFolder ''test folder'') = 1
   \<and> tf_GetMessage (GetFolder ''test folder'') 0 = Inl ErrNotFound
   \<and> tf_GetMessage (GetFolder ''test folder'') 1 = Inl ErrNotFound
   \<and> tf_GetMessage (GetFolder ''test folder'') 0 \<noteq> Inl ErrInvalidID"
  by (simp add: tf_GetMessage_def GetFolder_def tf_NextID_def)

lemma allocated_step:
  "folder_step f x = (Some i, f') \<Longrightarrow> i = nextIndex f \<and> nextIndex f' = nextIndex f + 1"
  by (cases x) (auto simp: tf_InsertNewMessage_def split: option.splits)

lemma unat_succ_uid:
  fixes w :: "64 word"
  assumes "unat w + 1 < 2 ^ 64"
  shows "unat (w + 1) = unat w + 1"
  using assms by (simp add: unat_word_ariths)

lemma not_allocated_step:
  "folder_step f x = (None, f') \<Longrightarrow> nextIndex f' = nextIndex f"
  by (cases x)
     (auto simp: tf_InsertNewMessage_def tf_InsertMessage_def tf_DeleteMessage_def
           split: option.splits if_splits)

lemma allocated_append:
  "allocated f (xs @ ys) = allocated f xs @ allocated (folder_run f xs) ys"
proof (induction xs arbitrary: f)
  case Nil
  then show ?case by simp
next
  case (Cons x xs)
  obtain r f' where step: "folder_step f x = (r, f')" by (cases "folder_step f x")
  show ?case using Cons.IH [of f'] step by (cases r) simp_all
qed

lemma folder_run_allocated:
  "unat (nextIndex f) + length (allocated f ops) < 2 ^ 64 \<Longrightarrow>
     unat (nextIndex (folder_run f ops)) = unat (nextIndex f) + length (allocated f ops)
   \<and> (\<forall>i \<in> set (allocated f ops). unat i < unat (nextIndex (folder_run f ops)))"
proof (induction ops arbitrary: f)
  case Nil
  then show ?case by simp
next
  case (Cons x xs)
  obtain r f' where step: "folder_step f x = (r, f')" by (cases "folder_step f x")
  have run: "folder_run f (x # xs) = folder_run f' xs" using step by simp
  show ?case
  proof (cases r)
    case None
    have same: "nextIndex f' = nextIndex f" using step None by (simp add: not_allocated_step)
    have al: "allocated f (x # xs) = allocated f' xs" using step None by simp
    have "unat (nextIndex f') + length (allocated f' xs) < 2 ^ 64"
      using Cons.prems unfolding al by (simp add: same)
    note ihc = Cons.IH [OF this]
    note ih = ihc [THEN conjunct1] ihc [THEN conjunct2]
    show ?thesis unfolding run al using ih by (simp add: same)
  next
    case (Some i)
    have i: "i = nextIndex f" and succ: "nextIndex f' = nextIndex f + 1"
      using allocated_step [of f x i f'] step Some by simp_all
    have al: "allocated f (x # xs) = i # allocated f' xs" using step Some by simp
    have small: "unat (nextIndex f) + 1 < 2 ^ 64" using Cons.prems unfolding al by simp
    have n': "unat (nextIndex f') = unat (nextIndex f) + 1"
      using unat_succ_uid [OF small] by (simp add: succ)
    have "unat (nextIndex f') + length (allocated f' xs) < 2 ^ 64"
      using Cons.prems unfolding al by (simp add: n')
    note ihc = Cons.IH [OF this]
    note ih = ihc [THEN conjunct1] ihc [THEN conjunct2]
    have "unat i < unat (nextIndex (folder_run f' xs))" using ih(1) n' i by simp
    then show ?thesis using ih unfolding run al by (simp add: n')
  qed
qed

text \<open>
  C8. For every folder that insert and delete operations \<open>xs\<close> have made of a new one
  and every further sequence \<open>ys\<close> of such operations: \<open>NextID\<close> after \<open>ys\<close> is not
  below \<open>NextID\<close> before, and it is strictly greater than every id allocated in the folder
  so far, whether or not the entry has been deleted since. This is for runs in which the
  \<open>uint64\<close> counter has not wrapped around, that is, runs that have allocated fewer than
  \<open>2 ^ 64 - 1\<close> ids, as every run that a process can perform has; operations that
  allocate nothing do not count towards that number.
\<close>

theorem NextID_monotone:
  "length (allocated (GetFolder n) (xs @ ys)) < 2 ^ 64 - 1 \<Longrightarrow>
     tf_NextID (folder_run (GetFolder n) xs) \<le> tf_NextID (folder_run (GetFolder n) (xs @ ys))
   \<and> (\<forall>i \<in> set (allocated (GetFolder n) (xs @ ys)).
         i < tf_NextID (folder_run (GetFolder n) (xs @ ys)))"
proof -
  assume len: "length (allocated (GetFolder n) (xs @ ys)) < 2 ^ 64 - 1"
  let ?f0 = "GetFolder n"
  have n0: "unat (nextIndex ?f0) = 1" by (simp add: GetFolder_def)
  have all: "unat (nextIndex ?f0) + length (allocated ?f0 (xs @ ys)) < 2 ^ 64"
    using len n0 by simp
  have "length (allocated ?f0 xs) \<le> length (allocated ?f0 (xs @ ys))"
    by (simp add: allocated_append)
  then have pre: "unat (nextIndex ?f0) + length (allocated ?f0 xs) < 2 ^ 64"
    using all by simp
  have a: "unat (nextIndex (folder_run ?f0 xs)) = 1 + length (allocated ?f0 xs)"
    using folder_run_allocated [OF pre] n0 by simp
  note whole = folder_run_allocated [OF all]
  have b: "unat (nextIndex (folder_run ?f0 (xs @ ys))) = 1 + length (allocated ?f0 (xs @ ys))"
    using whole [THEN conjunct1] n0 by simp
  have c: "\<forall>i \<in> set (allocated ?f0 (xs @ ys)).
        unat i < unat (nextIndex (folder_run ?f0 (xs @ ys)))"
    by (rule whole [THEN conjunct2])
  have "unat (nextIndex (folder_run ?f0 xs)) \<le> unat (nextIndex (folder_run ?f0 (xs @ ys)))"
    by (simp only: a b) (simp add: allocated_append)
  with c show ?thesis
    by (simp add: tf_NextID_def word_le_nat_alt word_less_nat_alt)
qed

theorem NextID_monotone_witness:
  "length (allocated (GetFolder ''f'')
      ([InsertNew (Some [7]) 2, Delete 1] @ [InsertNew (Some [8]) 2])) < 2 ^ 64 - 1
   \<and> tf_NextID (folder_run (GetFolder ''f'') [InsertNew (Some [7]) 2, Delete 1]) = 2
   \<and> tf_NextID (folder_run (GetFolder ''f'')
        ([InsertNew (Some [7]) 2, Delete 1] @ [InsertNew (Some [8]) 2])) = 3
   \<and> allocated (GetFolder ''f'')
        ([InsertNew (Some [7]) 2, Delete 1] @ [InsertNew (Some [8]) 2]) = [1, 2]"
  using NextID_monotone [of "''f''" "[InsertNew (Some [7]) 2, Delete 1]" "[InsertNew (Some [8]) 2]"]
  by (simp add: tf_NextID_def GetFolder_def tf_InsertNewMessage_def tf_DeleteMessage_def)

section \<open>Properties of the lookup by sequence number\<close>

lemma trace_emit: "trace (emit ev box) = trace box @ [ev]"
  by (simp add: emit_def)

lemma uids_emit: "uids (emit ev box) = uids box"
  by (simp add: emit_def)

lemma mbox_emit: "mbox (emit ev box) = mbox box"
  by (simp add: emit_def)

lemma new_events_append: "trace box' = trace box @ evs \<Longrightarrow> new_events box box' = evs"
  by (simp add: new_events_def)

lemma trace_decodeBitmessageForImap:
  "trace (snd (decodeBitmessageForImap c box u s msg)) =
     trace box @ (if isl (DecodeBitmessage c msg) then [LogDecodeForImapFailed u] else [])"
  by (simp add: decodeBitmessageForImap_def trace_emit split: sum.splits)

lemma trace_bmsgByUID:
  "\<exists>evs. trace (snd (bmsgByUID c box u)) = trace box @ CallGetMessage u # evs
         \<and> filter is_IndexUids evs = [] \<and> filter is_store_call evs = []"
  by (auto simp: bmsgByUID_def Let_def trace_emit trace_decodeBitmessageForImap
           split: sum.splits prod.splits)

lemma messages_le_length: "unat (messages box) \<le> length (uids box)"
  by (simp add: messages_def unat_of_nat)

lemma seqno_in_bounds:
  assumes "\<not> (seqno < 1 \<or> seqno > messages box)"
  shows "unat (seqno - 1) = unat seqno - 1" "unat seqno - 1 < length (uids box)"
proof -
  have ge: "1 \<le> seqno" and le: "seqno \<le> messages box"
    using assms by (simp_all only: de_Morgan_disj not_less)
  from ge have pos: "1 \<le> unat seqno" by (simp add: word_le_nat_alt)
  from ge show "unat (seqno - 1) = unat seqno - 1" by (simp add: unat_sub)
  from le have "unat seqno \<le> unat (messages box)" by (simp add: word_le_nat_alt)
  with messages_le_length [of box] pos show "unat seqno - 1 < length (uids box)" by simp
qed

text \<open>
  C10. For every mailbox and every sequence number: when \<open>seqno < 1\<close> or
  \<open>seqno > Messages()\<close>, \<open>BitmessageBySequenceNumber\<close> returns \<open>nil\<close> and leaves the
  mailbox as it was, so it has neither called the folder nor evaluated an index expression;
  when \<open>1 \<le> seqno \<le> Messages()\<close>, the index \<open>seqno - 1\<close> is below the length of the
  uid list, the operation does not panic, it is the lookup by uid of the element at that
  index, and \<open>seqno - 1\<close> is the only index at which it reads the uid list.
\<close>

theorem BitmessageBySequenceNumber_bounds:
  "(seqno < 1 \<or> seqno > Messages box \<longrightarrow>
      BitmessageBySequenceNumber c box seqno = (Inr None, box)
      \<and> new_events box (snd (BitmessageBySequenceNumber c box seqno)) = [])
   \<and> (1 \<le> seqno \<and> seqno \<le> Messages box \<longrightarrow>
      unat seqno - 1 < length (uids box)
      \<and> fst (BitmessageBySequenceNumber c box seqno) \<noteq> Inl PanicIndexOutOfRange
      \<and> BitmessageBySequenceNumber c box seqno =
          (Inr (fst (bmsgByUID c (emit (IndexUids (unat seqno - 1)) box)
                       (uids box ! (unat seqno - 1)))),
           snd (bmsgByUID c (emit (IndexUids (unat seqno - 1)) box)
                  (uids box ! (unat seqno - 1))))
      \<and> filter is_IndexUids (new_events box (snd (BitmessageBySequenceNumber c box seqno)))
          = [IndexUids (unat seqno - 1)])"
proof (intro conjI impI)
  assume out: "seqno < 1 \<or> seqno > Messages box"
  then show "BitmessageBySequenceNumber c box seqno = (Inr None, box)"
    by (simp add: BitmessageBySequenceNumber_def Messages_def)
  then show "new_events box (snd (BitmessageBySequenceNumber c box seqno)) = []"
    by (simp add: new_events_def)
next
  assume "1 \<le> seqno \<and> seqno \<le> Messages box"
  then have inr: "\<not> (seqno < 1 \<or> seqno > messages box)"
    by (auto simp: Messages_def not_less)
  note b = seqno_in_bounds [OF inr]
  let ?i = "unat seqno - 1"
  let ?box1 = "emit (IndexUids ?i) box"
  show "?i < length (uids box)" by (rule b(2))
  have at: "uids_at box (unat (seqno - 1)) = (Inr (uids box ! ?i), ?box1)"
    using b by (simp add: uids_at_def)
  show eq: "BitmessageBySequenceNumber c box seqno =
      (Inr (fst (bmsgByUID c ?box1 (uids box ! ?i))), snd (bmsgByUID c ?box1 (uids box ! ?i)))"
    using inr at by (simp add: BitmessageBySequenceNumber_def split: prod.splits)
  then show "fst (BitmessageBySequenceNumber c box seqno) \<noteq> Inl PanicIndexOutOfRange"
    by simp
  obtain evs where evs: "trace (snd (bmsgByUID c ?box1 (uids box ! ?i)))
      = trace ?box1 @ CallGetMessage (uids box ! ?i) # evs" "filter is_IndexUids evs = []"
    using trace_bmsgByUID [of c ?box1 "uids box ! ?i"] by blast
  have "trace (snd (BitmessageBySequenceNumber c box seqno))
      = trace box @ (IndexUids ?i # CallGetMessage (uids box ! ?i) # evs)"
    using evs(1) by (simp add: eq trace_emit)
  then have "new_events box (snd (BitmessageBySequenceNumber c box seqno))
      = IndexUids ?i # CallGetMessage (uids box ! ?i) # evs"
    by (rule new_events_append)
  then show "filter is_IndexUids (new_events box (snd (BitmessageBySequenceNumber c box seqno)))
      = [IndexUids ?i]"
    using evs(2) by simp
qed

theorem BitmessageBySequenceNumber_bounds_witness:
  "BitmessageBySequenceNumber example_codec three_box 4 = (Inr None, three_box)
   \<and> BitmessageBySequenceNumber example_codec three_box 0 = (Inr None, three_box)
   \<and> (1 \<le> (3 :: seqno) \<and> 3 \<le> Messages three_box)
   \<and> filter is_IndexUids
        (new_events three_box (snd (BitmessageBySequenceNumber example_codec three_box 3)))
       = [IndexUids 2]"
proof -
  have m: "Messages three_box = 3" by (simp add: Messages_def messages_def three_box_def)
  have above: "(4 :: seqno) < 1 \<or> 4 > Messages three_box" by (simp add: m)
  have below: "(0 :: seqno) < 1 \<or> 0 > Messages three_box" by simp
  have inside: "1 \<le> (3 :: seqno) \<and> 3 \<le> Messages three_box" by (simp add: m)
  have i: "unat (3 :: seqno) - 1 = 2" by simp
  have a: "BitmessageBySequenceNumber example_codec three_box 4 = (Inr None, three_box)"
    using BitmessageBySequenceNumber_bounds [of 4 three_box example_codec] above by blast
  have b: "BitmessageBySequenceNumber example_codec three_box 0 = (Inr None, three_box)"
    using BitmessageBySequenceNumber_bounds [of 0 three_box example_codec] below by blast
  have "filter is_IndexUids
        (new_events three_box (snd (BitmessageBySequenceNumber example_codec three_box 3)))
       = [IndexUids (unat (3 :: seqno) - 1)]"
    using BitmessageBySequenceNumber_bounds [of 3 three_box example_codec] inside by blast
  then show ?thesis using a b inside by (simp only: i simp_thms)
qed

section \<open>Properties of the encrypted store\<close>

text \<open>
  C7. For every store opened with an old passphrase and every new passphrase other than
  the old one: the open store holds the old passphrase and the counters and folders of the
  file; after \<open>ChangePassphrase(new)\<close> and \<open>Close\<close>, an \<open>Open\<close> with the new
  passphrase succeeds with these counters and folders, and an \<open>Open\<close> with the old
  passphrase fails with \<open>DecryptionFailed\<close>.
\<close>

theorem passphrase_change:
  assumes "Open file old = Inr st" and "new \<noteq> old"
  shows "passphrase st = old
    \<and> (\<forall>s. file = Some s \<longrightarrow> counters st = sealed_counters s \<and> folders st = sealed_folders s)
    \<and> Open (Close (ChangePassphrase st new)) new
        = Inr \<lparr>passphrase = new, counters = counters st, folders = folders st\<rparr>
    \<and> Open (Close (ChangePassphrase st new)) old = Inl ErrDecryptionFailed"
  using assms
  by (auto simp: Open_def Close_def ChangePassphrase_def unlock_def
           split: option.splits if_splits)

text \<open>
  The steps of \<open>TestOpenClose\<close>: a new file opens with the first passphrase; once closed
  it does not open with the second and opens with the first; after the change of
  passphrase it opens with the second, and no longer with the first.
\<close>

theorem passphrase_change_witness:
  "Open None pass = Inr \<lparr>passphrase = pass, counters = Map.empty, folders = Map.empty\<rparr>
   \<and> Open (Close opened_store) passNew = Inl ErrDecryptionFailed
   \<and> Open (Close opened_store) pass = Inr opened_store
   \<and> passNew \<noteq> pass
   \<and> Open (Close (ChangePassphrase opened_store passNew)) passNew
       = Inr \<lparr>passphrase = passNew, counters = counters opened_store,
               folders = folders opened_store\<rparr>
   \<and> Open (Close (ChangePassphrase opened_store passNew)) pass = Inl ErrDecryptionFailed"
proof -
  have c: "Open None pass = Inr \<lparr>passphrase = pass, counters = Map.empty, folders = Map.empty\<rparr>"
    by (simp add: Open_def)
  have d: "passNew \<noteq> pass" by (simp add: pass_def passNew_def)
  have w: "Open (Close opened_store) passNew = Inl ErrDecryptionFailed"
    using d by (simp add: Open_def Close_def unlock_def opened_store_def)
  have o: "Open (Close opened_store) pass = Inr opened_store"
    by (simp add: Open_def Close_def unlock_def opened_store_def)
  show ?thesis using passphrase_change [OF o d] c d w o by simp
qed

section \<open>Fetching by sequence range\<close>

lemmas mailbox_defs =
  BitmessagesBySequenceRange_def BitmessageSetBySequenceNumber_def set_by_seq_round_def
  BitmessagesSinceSequenceNumber_def BitmessageBySequenceNumber_def LastBitmessage_def
  getRange_def getSince_def range_visit_def decodeBitmessageForImap_def bmsgByUID_def
  uids_at_def emit_def messages_def Messages_def store_ForEachMessage_def selected_def
  store_GetMessage_def example_codec_def example_decode_def three_box_def three_messages_def
  Let_def

text \<open>
  C1 does not hold of the code. On the mailbox of three messages with the uids 1, 2, 3,
  \<open>BitmessagesBySequenceRange(1, 3)\<close> evaluates \<open>box.uids[3]\<close> and panics, and
  \<open>BitmessagesBySequenceRange(1, 2)\<close> returns the messages with the uids 2 and 3, those
  at the positions 2 and 3, not 1 and 2. \<open>BitmessageSetBySequenceNumber\<close> hands the uid
  of the start position on as a sequence number and ends the same way.
\<close>

theorem sequence_range_off_by_one:
  "uids three_box = [1, 2, 3]
   \<and> fst (BitmessagesBySequenceRange example_codec three_box 1 3) = Inl PanicIndexOutOfRange
   \<and> map_sum id (map_option (map (\<lambda>b. UID (ImapData b))))
        (fst (BitmessagesBySequenceRange example_codec three_box 1 2)) = Inr (Some [2, 3])
   \<and> map_sum id (map (map_option (\<lambda>b. UID (ImapData b))))
        (fst (BitmessageSetBySequenceNumber example_codec three_box
               [\<lparr>range_Min = SeqValue 1, range_Max = SeqValue 2\<rparr>])) = Inr [Some 2, Some 3]
   \<and> fst (BitmessageSetBySequenceNumber example_codec three_box
               [\<lparr>range_Min = SeqValue 2, range_Max = SeqValue 3\<rparr>]) = Inl PanicIndexOutOfRange"
  by (simp add: mailbox_defs word_le_nat_alt word_less_nat_alt)

section \<open>Properties of Refresh\<close>

lemma LastIDBySuffix_NotFound:
  "filter (\<lambda>(i, s, p). s = sfx) (mb_entries m) = [] \<Longrightarrow> store_LastIDBySuffix m sfx = Inl ErrNotFound"
  by (simp add: store_LastIDBySuffix_def)

lemma LastIDBySuffix_found:
  "filter (\<lambda>(i, s, p). s = sfx) (mb_entries m) \<noteq> [] \<Longrightarrow> \<exists>l. store_LastIDBySuffix m sfx = Inr l"
  by (simp add: store_LastIDBySuffix_def split: list.splits)

lemma selected_all:
  "selected m 0 0 sfx = sort_key fst (filter (\<lambda>(i, s, p). s = sfx) (mb_entries m))"
  by (simp add: selected_def)

lemma ucast_seqno_roundtrip: "(ucast (ucast (w :: seqno) :: uid) :: seqno) = w"
  by (simp add: word_unat_eq_iff unsigned_ucast_eq take_bit_word_eq_self)

lemma Refresh_no_messages:
  assumes "filter (\<lambda>(i, s, p). s = 2) (mb_entries (mbox box)) = []"
  shows "Refresh c box =
     (None, box\<lparr>nextUID := ucast (mb_next (mbox box)),
                lastUID := ucast (mb_next (mbox box)),
                trace := trace box @ [CallNextID, CallLastIDBySuffix 2, CallForEachMessage 0 0 2],
                uids := [], numRecent := 0, numUnseen := 0\<rparr>)"
  using assms
  by (simp add: Refresh_def Let_def store_NextID_def mbox_emit LastIDBySuffix_NotFound
      store_ForEachMessage_def selected_all emit_def ucast_seqno_roundtrip)

lemma lastUID_Refresh:
  assumes "store_LastIDBySuffix (mbox box) 2 = Inr l"
  shows "lastUID (snd (Refresh c box)) = ucast l"
proof -
  let ?box2 = "emit (CallLastIDBySuffix 2) ((emit CallNextID box)\<lparr>nextUID := ucast (mb_next (mbox box))\<rparr>)"
  let ?box3 = "emit (CallForEachMessage 0 0 2) (?box2\<lparr>lastUID := ucast l\<rparr>)"
  have keep: "lastUID (snd (snd (visit_all (refresh_visit c) es (st, b)))) = lastUID b" for es st b
  proof (induction es arbitrary: st b)
    case Nil
    then show ?case by simp
  next
    case (Cons e es)
    obtain i s p where e: "e = (i, s, p)" by (cases e)
    obtain r u ids where st: "st = (r, u, ids)" by (cases st)
    show ?case
      using Cons.IH by (cases "DecodeBitmessage c p") (simp_all add: e st refresh_visit_def emit_def)
  qed
  have m2: "mbox ?box2 = mbox box" by (simp add: emit_def)
  obtain r st b where v: "store_ForEachMessage (mbox ?box3) 0 0 2 (refresh_visit c) ((0, 0, []), ?box3) = (r, st, b)"
    by (metis prod_cases3)
  have "lastUID b = lastUID ?box3"
    using keep [of "selected (mbox ?box3) 0 0 2" "(0, 0, [])" ?box3] v
    by (simp add: store_ForEachMessage_def)
  then have b: "lastUID b = ucast l" by (simp add: emit_def)
  obtain rc un ids where st: "st = (rc, un, ids)" by (cases st)
  show ?thesis
    using assms v b st
    by (cases r) (simp_all add: Refresh_def Let_def store_NextID_def mbox_emit)
qed

text \<open>
  C6 (as amended). After \<open>Refresh\<close> on a mailbox whose folder holds no entry with the
  decoded-message suffix 2, \<open>Refresh\<close> has succeeded, \<open>Messages()\<close> is 0 and
  \<open>NextUID()\<close> equals \<open>LastUID()\<close>, both being the folder's next-id bound converted
  to \<open>uint32\<close>, which is the bound itself when it is below \<open>2 ^ 32\<close>. When the folder
  holds such entries, \<open>LastUID()\<close> is what \<open>LastIDBySuffix(2)\<close> returns, converted to
  \<open>uint32\<close>.
\<close>

theorem Refresh_last_uid:
  "(filter (\<lambda>(i, s, p). s = 2) (mb_entries (mbox box)) = [] \<longrightarrow>
      fst (Refresh c box) = None
      \<and> Messages (snd (Refresh c box)) = 0
      \<and> NextUID (snd (Refresh c box)) = LastUID (snd (Refresh c box))
      \<and> NextUID (snd (Refresh c box)) = ucast (mb_next (mbox box))
      \<and> (mb_next (mbox box) < 2 ^ 32 \<longrightarrow>
           unat (NextUID (snd (Refresh c box))) = unat (mb_next (mbox box))))
   \<and> (filter (\<lambda>(i, s, p). s = 2) (mb_entries (mbox box)) \<noteq> [] \<longrightarrow>
      (\<exists>l. store_LastIDBySuffix (mbox box) 2 = Inr l
           \<and> LastUID (snd (Refresh c box)) = ucast l))"
proof (intro conjI impI)
  assume e: "filter (\<lambda>(i, s, p). s = 2) (mb_entries (mbox box)) = []"
  note r = Refresh_no_messages [OF e, of c]
  show "fst (Refresh c box) = None" by (simp add: r)
  show "Messages (snd (Refresh c box)) = 0" by (simp add: r Messages_def messages_def)
  show "NextUID (snd (Refresh c box)) = LastUID (snd (Refresh c box))"
    by (simp add: r NextUID_def LastUID_def)
  show n: "NextUID (snd (Refresh c box)) = ucast (mb_next (mbox box))"
    by (simp add: r NextUID_def)
  assume "mb_next (mbox box) < 2 ^ 32"
  then have "unat (mb_next (mbox box)) < 2 ^ 32" by (simp add: word_less_nat_alt)
  then show "unat (NextUID (snd (Refresh c box))) = unat (mb_next (mbox box))"
    by (simp add: n unsigned_ucast_eq take_bit_nat_eq_self)
next
  assume "filter (\<lambda>(i, s, p). s = 2) (mb_entries (mbox box)) \<noteq> []"
  then obtain l where l: "store_LastIDBySuffix (mbox box) 2 = Inr l"
    using LastIDBySuffix_found by blast
  then have "LastUID (snd (Refresh c box)) = ucast l"
    by (simp add: LastUID_def lastUID_Refresh)
  with l show "\<exists>l. store_LastIDBySuffix (mbox box) 2 = Inr l
      \<and> LastUID (snd (Refresh c box)) = ucast l" by blast
qed

theorem Refresh_last_uid_witness:
  "filter (\<lambda>(i, s, p). s = 2) (mb_entries (mbox (blank_Mailbox other_suffix))) = []
   \<and> mb_next (mbox (blank_Mailbox other_suffix)) < 2 ^ 32
   \<and> Messages (snd (Refresh example_codec (blank_Mailbox other_suffix))) = 0
   \<and> unat (NextUID (snd (Refresh example_codec (blank_Mailbox other_suffix)))) = 3
   \<and> LastUID (snd (Refresh example_codec (blank_Mailbox other_suffix))) = 3
   \<and> filter (\<lambda>(i, s, p). s = 2) (mb_entries (mbox (blank_Mailbox three_messages))) \<noteq> []
   \<and> store_LastIDBySuffix (mbox (blank_Mailbox three_messages)) 2 = Inr 3
   \<and> LastUID (snd (Refresh example_codec (blank_Mailbox three_messages))) = 3"
proof -
  have e: "filter (\<lambda>(i, s, p). s = 2) (mb_entries (mbox (blank_Mailbox other_suffix))) = []"
    by (simp add: blank_Mailbox_def other_suffix_def)
  have n: "mb_next (mbox (blank_Mailbox other_suffix)) = 3"
    by (simp add: blank_Mailbox_def other_suffix_def)
  have small: "mb_next (mbox (blank_Mailbox other_suffix)) < 2 ^ 32"
    by (simp add: n word_less_nat_alt)
  have ne: "filter (\<lambda>(i, s, p). s = 2) (mb_entries (mbox (blank_Mailbox three_messages))) \<noteq> []"
    by (simp add: blank_Mailbox_def three_messages_def)
  have l: "store_LastIDBySuffix (mbox (blank_Mailbox three_messages)) 2 = Inr 3"
    by (simp add: blank_Mailbox_def three_messages_def store_LastIDBySuffix_def)
  have three: "(ucast (3 :: uid) :: seqno) = 3" by simp
  show ?thesis
    using Refresh_last_uid [of "blank_Mailbox other_suffix" example_codec]
          Refresh_last_uid [of "blank_Mailbox three_messages" example_codec]
          e small ne l
    by (auto simp: n three)
qed

text \<open>
  C6 as it is stated fails on a folder whose next-id bound does not fit 32 bits: with the
  bound \<open>2 ^ 32\<close> and no entries, \<open>NextUID()\<close> and \<open>LastUID()\<close> are both 0 after
  \<open>Refresh\<close>.
\<close>

theorem NextUID_truncated_counterexample:
  "filter (\<lambda>(i, s, p). s = 2) (mb_entries long_lived) = []
   \<and> store_NextID long_lived = Inr 4294967296
   \<and> fst (Refresh example_codec (blank_Mailbox long_lived)) = None
   \<and> NextUID (snd (Refresh example_codec (blank_Mailbox long_lived))) = 0
   \<and> LastUID (snd (Refresh example_codec (blank_Mailbox long_lived))) = 0"
  by (simp add: Refresh_def Let_def store_NextID_def store_LastIDBySuffix_def
      store_ForEachMessage_def selected_def emit_def blank_Mailbox_def long_lived_def
      NextUID_def LastUID_def)

section \<open>Properties of the acknowledgement scan\<close>

lemma ack_visit_Inl:
  "DecodeBitmessage c p = Inl err \<Longrightarrow> ack_visit c ack i s p acc = (Some err, acc)"
  by (simp add: ack_visit_def)

lemma ack_visit_Inr:
  "DecodeBitmessage c p = Inr entry \<Longrightarrow>
     ack_visit c ack i s p acc
       = (if Ack entry = ack then (Some ErrAckFound, Some entry) else (None, acc))"
  by (simp add: ack_visit_def)

lemma ack_visit_all:
  "visit_all (ack_visit c ack) es acc = (r, Some e) \<Longrightarrow>
     acc = Some e \<or> (Ack e = ack \<and> (\<exists>(i, s, p) \<in> set es. DecodeBitmessage c p = Inr e))"
proof (induction es arbitrary: acc)
  case Nil
  then show ?case by simp
next
  case (Cons x es)
  obtain i s p where x: "x = (i, s, p)" by (cases x)
  show ?case
  proof (cases "DecodeBitmessage c p")
    case (Inl err)
    with Cons.prems x show ?thesis by (simp add: ack_visit_Inl)
  next
    case (Inr entry)
    show ?thesis
    proof (cases "Ack entry = ack")
      case True
      with Cons.prems x Inr show ?thesis by (auto simp: ack_visit_Inr)
    next
      case False
      with Cons.prems x Inr have "visit_all (ack_visit c ack) es acc = (r, Some e)"
        by (simp add: ack_visit_Inr)
      from Cons.IH [OF this] show ?thesis by auto
    qed
  qed
qed

lemma set_selected: "set (selected m lo hi sfx) \<subseteq> {(i, s, p). (i, s, p) \<in> set (mb_entries m) \<and> s = sfx}"
  by (auto simp: selected_def)

lemma ack_scan_Some:
  assumes "ack_scan c box ack = Some e"
  shows "Ack e = ack \<and> (\<exists>(i, s, p) \<in> set (mb_entries (mbox box)). s = 2 \<and> DecodeBitmessage c p = Inr e)"
proof -
  obtain r where "visit_all (ack_visit c ack) (selected (mbox box) 0 0 2) None = (r, Some e)"
    using assms by (cases "visit_all (ack_visit c ack) (selected (mbox box) 0 0 2) None")
      (simp add: ack_scan_def store_ForEachMessage_def)
  from ack_visit_all [OF this]
  have "Ack e = ack" and "\<exists>(i, s, p) \<in> set (selected (mbox box) 0 0 2). DecodeBitmessage c p = Inr e"
    by auto
  then show ?thesis using set_selected [of "mbox box" 0 0 2] by fastforce
qed

lemma ack_scan_emit: "ack_scan c (emit ev box) ack = ack_scan c box ack"
  by (simp add: ack_scan_def emit_def)

lemma SaveBitmessage_message:
  "\<exists>u. fst (snd (SaveBitmessage c box msg)) = msg\<lparr>ImapData := (ImapData msg)\<lparr>UID := u\<rparr>\<rparr>"
proof -
  have same: "msg = msg\<lparr>ImapData := (ImapData msg)\<lparr>UID := UID (ImapData msg)\<rparr>\<rparr>" by simp
  have "fst (snd (SaveBitmessage c box msg)) = msg
      \<or> (\<exists>u. fst (snd (SaveBitmessage c box msg)) = msg\<lparr>ImapData := (ImapData msg)\<lparr>UID := u\<rparr>\<rparr>)"
    by (auto simp: SaveBitmessage_def Let_def split: prod.splits option.splits sum.splits)
  then show ?thesis using same by metis
qed

text \<open>
  C9. Whenever the scan of \<open>ReceiveAck\<close> finds an entry, that entry is a stored entry
  with the suffix 2 whose ack bytes equal the payload, and \<open>ReceiveAck\<close> returns it,
  with its ack-received flag set and with the uid \<open>SaveBitmessage\<close> left in it, whatever
  \<open>SaveBitmessage\<close> returns: an error of \<open>SaveBitmessage\<close> does not change the result
  and is not part of it.
\<close>

theorem ReceiveAck_returns_match:
  "ack_scan c box ack = Some e \<Longrightarrow>
     Ack e = ack
   \<and> (\<exists>(i, s, p) \<in> set (mb_entries (mbox box)). s = 2 \<and> DecodeBitmessage c p = Inr e)
   \<and> (\<forall>err saved box'.
         SaveBitmessage c (emit (CallForEachMessage 0 0 2) box) (e\<lparr>AckReceived := True\<rparr>)
           = (err, saved, box')
         \<longrightarrow> ReceiveAck c box ack = (Some saved, box'))
   \<and> (\<exists>u. fst (ReceiveAck c box ack)
           = Some (e\<lparr>AckReceived := True, ImapData := (ImapData e)\<lparr>UID := u\<rparr>\<rparr>))"
proof -
  assume scan: "ack_scan c box ack = Some e"
  let ?box1 = "emit (CallForEachMessage 0 0 2) box"
  let ?msg = "e\<lparr>AckReceived := True\<rparr>"
  have scan1: "ack_scan c ?box1 ack = Some e" using scan by (simp add: ack_scan_emit)
  have ret: "ReceiveAck c box ack = (Some saved, box')"
    if "SaveBitmessage c ?box1 ?msg = (err, saved, box')" for err saved box'
    using that scan1 by (simp add: ReceiveAck_def Let_def)
  obtain err saved box' where s: "SaveBitmessage c ?box1 ?msg = (err, saved, box')"
    by (metis prod_cases3)
  obtain u where "fst (snd (SaveBitmessage c ?box1 ?msg)) = ?msg\<lparr>ImapData := (ImapData ?msg)\<lparr>UID := u\<rparr>\<rparr>"
    using SaveBitmessage_message by blast
  then have "saved = e\<lparr>AckReceived := True, ImapData := (ImapData e)\<lparr>UID := u\<rparr>\<rparr>"
    using s by simp
  then have "fst (ReceiveAck c box ack)
      = Some (e\<lparr>AckReceived := True, ImapData := (ImapData e)\<lparr>UID := u\<rparr>\<rparr>)"
    using ret [OF s] by simp
  then show ?thesis using ack_scan_Some [OF scan] ret by blast
qed

lemmas save_defs =
  ReceiveAck_def ack_scan_def ack_visit_def SaveBitmessage_def SaveBitmessage_replace_def
  BitmessageByUID_def bmsgByUID_def decodeBitmessageForImap_def store_GetMessage_def
  store_DeleteMessage_def store_InsertMessage_def store_ForEachMessage_def selected_def
  Refresh_def refresh_visit_def store_NextID_def store_LastIDBySuffix_def emit_def
  example_codec_def failing_codec_def example_decode_def example_serialize_def Let_def
  three_box_def three_messages_def HasFlags_def FlagSeen_def FlagRecent_def

theorem ReceiveAck_returns_match_witness:
  "ack_scan failing_codec three_box [12]
     = Some \<lparr>ImapData = \<lparr>UID = 0, SequenceNumber = 0, Flags = 32, DateReceived = 8\<rparr>,
             Ack = [12], AckReceived = False, Encoding = 2, Content = []\<rparr>
   \<and> fst (SaveBitmessage failing_codec (emit (CallForEachMessage 0 0 2) three_box)
        \<lparr>ImapData = \<lparr>UID = 0, SequenceNumber = 0, Flags = 32, DateReceived = 8\<rparr>,
         Ack = [12], AckReceived = True, Encoding = 2, Content = []\<rparr>) = Some ErrSerialize
   \<and> fst (ReceiveAck failing_codec three_box [12])
     = Some \<lparr>ImapData = \<lparr>UID = 0, SequenceNumber = 0, Flags = 32, DateReceived = 8\<rparr>,
             Ack = [12], AckReceived = True, Encoding = 2, Content = []\<rparr>"
proof -
  let ?e = "\<lparr>ImapData = \<lparr>UID = 0, SequenceNumber = 0, Flags = 32, DateReceived = 8\<rparr>,
             Ack = [12], AckReceived = False, Encoding = 2, Content = []\<rparr>"
  have scan: "ack_scan failing_codec three_box [12] = Some ?e"
    by (simp add: save_defs)
  have save: "SaveBitmessage failing_codec (emit (CallForEachMessage 0 0 2) three_box)
      (?e\<lparr>AckReceived := True\<rparr>)
      = (Some ErrSerialize, ?e\<lparr>AckReceived := True\<rparr>, emit (CallForEachMessage 0 0 2) three_box)"
    by (simp add: SaveBitmessage_def failing_codec_def)
  from ReceiveAck_returns_match [OF scan] save
  have "ReceiveAck failing_codec three_box [12]
      = (Some (?e\<lparr>AckReceived := True\<rparr>), emit (CallForEachMessage 0 0 2) three_box)"
    by blast
  then show ?thesis using scan save by simp
qed

section \<open>Entries that do not decode\<close>

lemma range_visit_Inl:
  "DecodeBitmessage c p = Inl err \<Longrightarrow>
     range_visit c s0 i s p ((k, acc), box)
       = (None, ((k, acc), emit (LogDecodeForImapFailed i) box))"
  by (simp add: range_visit_def decodeBitmessageForImap_def)

lemma range_visit_Inr:
  "DecodeBitmessage c p = Inr b \<Longrightarrow>
     range_visit c s0 i s p ((k, acc), box)
       = (None, ((k + 1,
                  acc @ [b\<lparr>ImapData := (ImapData b)\<lparr>UID := i, SequenceNumber := s0 + k\<rparr>\<rparr>]),
                 box))"
  by (simp add: range_visit_def decodeBitmessageForImap_def)

lemma visit_all_range:
  "\<exists>k' ms. visit_all (range_visit c s0) es ((k, acc), box)
       = (None, ((k', acc @ ms),
                 box\<lparr>trace := trace box @ map LogDecodeForImapFailed (undecodable c es)\<rparr>))
     \<and> map (\<lambda>b. UID (ImapData b)) ms = decodable c es"
proof (induction es arbitrary: k acc box)
  case Nil
  then show ?case by (simp add: undecodable_def decodable_def)
next
  case (Cons x es)
  obtain i s p where x: "x = (i, s, p)" by (cases x)
  show ?case
  proof (cases "DecodeBitmessage c p")
    case (Inl err)
    obtain k' ms where
      "visit_all (range_visit c s0) es ((k, acc), emit (LogDecodeForImapFailed i) box)
        = (None, ((k', acc @ ms),
            (emit (LogDecodeForImapFailed i) box)
              \<lparr>trace := trace (emit (LogDecodeForImapFailed i) box)
                   @ map LogDecodeForImapFailed (undecodable c es)\<rparr>))"
      "map (\<lambda>b. UID (ImapData b)) ms = decodable c es"
      using Cons.IH [of k acc "emit (LogDecodeForImapFailed i) box"] by blast
    then show ?thesis
      using Inl by (simp add: x range_visit_Inl undecodable_def decodable_def emit_def)
  next
    case (Inr b)
    let ?b = "b\<lparr>ImapData := (ImapData b)\<lparr>UID := i, SequenceNumber := s0 + k\<rparr>\<rparr>"
    obtain k' ms where
      "visit_all (range_visit c s0) es ((k + 1, acc @ [?b]), box)
        = (None, ((k', (acc @ [?b]) @ ms),
            box\<lparr>trace := trace box @ map LogDecodeForImapFailed (undecodable c es)\<rparr>))"
      "map (\<lambda>b. UID (ImapData b)) ms = decodable c es"
      using Cons.IH [of "k + 1" "acc @ [?b]" box] by blast
    then have "visit_all (range_visit c s0) (x # es) ((k, acc), box)
        = (None, ((k', acc @ (?b # ms)),
            box\<lparr>trace := trace box @ map LogDecodeForImapFailed (undecodable c (x # es))\<rparr>))
      \<and> map (\<lambda>b. UID (ImapData b)) (?b # ms) = decodable c (x # es)"
      using Inr by (simp add: x range_visit_Inr undecodable_def decodable_def)
    then show ?thesis by blast
  qed
qed

lemma getRange_skips:
  "(\<exists>ms. fst (getRange c box lo hi s0 e0) = Some ms
        \<and> map (\<lambda>b. UID (ImapData b)) ms = decodable c (selected (mbox box) lo hi 2))
   \<and> new_events box (snd (getRange c box lo hi s0 e0))
       = CallForEachMessage lo hi 2
         # map LogDecodeForImapFailed (undecodable c (selected (mbox box) lo hi 2))"
proof -
  let ?box1 = "emit (CallForEachMessage lo hi 2) box"
  let ?es = "selected (mbox box) lo hi 2"
  obtain k' ms where v: "visit_all (range_visit c s0) ?es ((0, []), ?box1)
       = (None, ((k', [] @ ms),
                 ?box1\<lparr>trace := trace ?box1 @ map LogDecodeForImapFailed (undecodable c ?es)\<rparr>))"
    and ms: "map (\<lambda>b. UID (ImapData b)) ms = decodable c ?es"
    using visit_all_range [of c s0 ?es 0 "[]" ?box1] by blast
  have g: "getRange c box lo hi s0 e0
      = (Some ms, ?box1\<lparr>trace := trace ?box1 @ map LogDecodeForImapFailed (undecodable c ?es)\<rparr>)"
    using v by (simp add: getRange_def Let_def store_ForEachMessage_def mbox_emit)
  show ?thesis using ms by (simp add: g new_events_def trace_emit)
qed

lemma refresh_visit_Inl:
  "DecodeBitmessage c p = Inl err \<Longrightarrow>
     refresh_visit c i s p (st, box) = (Some ErrLogged, (st, emit (LogFailedToDecode i) box))"
  by (cases st rule: prod_cases3) (auto simp: refresh_visit_def)

lemma refresh_visit_Inr:
  "DecodeBitmessage c p = Inr b \<Longrightarrow> \<exists>st'. refresh_visit c i s p (st, box) = (None, (st', box))"
  by (cases st rule: prod_cases3) (auto simp: refresh_visit_def)

lemma visit_all_refresh_stops:
  "undecodable c es \<noteq> [] \<Longrightarrow>
     \<exists>st'. visit_all (refresh_visit c) es (st, box)
       = (Some ErrLogged, (st', emit (LogFailedToDecode (hd (undecodable c es))) box))"
proof (induction es arbitrary: st)
  case Nil
  then show ?case by (simp add: undecodable_def)
next
  case (Cons x es)
  obtain i s p where x: "x = (i, s, p)" by (cases x)
  show ?case
  proof (cases "DecodeBitmessage c p")
    case (Inl err)
    then have "visit_all (refresh_visit c) (x # es) (st, box)
        = (Some ErrLogged, (st, emit (LogFailedToDecode i) box))"
      by (simp add: x refresh_visit_Inl)
    moreover have "hd (undecodable c (x # es)) = i"
      using Inl by (simp add: x undecodable_def)
    ultimately show ?thesis by blast
  next
    case (Inr b)
    then obtain st1 where st1: "refresh_visit c i s p (st, box) = (None, (st1, box))"
      using refresh_visit_Inr by blast
    have u: "undecodable c (x # es) = undecodable c es"
      using Inr by (simp add: x undecodable_def)
    with Cons.prems have "undecodable c es \<noteq> []" by simp
    from Cons.IH [OF this, of st1] show ?thesis unfolding u by (simp add: x st1)
  qed
qed

lemma Refresh_stops:
  assumes "undecodable c (selected (mbox box) 0 0 2) \<noteq> []"
  shows "fst (Refresh c box) = Some ErrLogged
    \<and> uids (snd (Refresh c box)) = uids box
    \<and> numRecent (snd (Refresh c box)) = numRecent box
    \<and> numUnseen (snd (Refresh c box)) = numUnseen box
    \<and> new_events box (snd (Refresh c box))
        = [CallNextID, CallLastIDBySuffix 2, CallForEachMessage 0 0 2,
           LogFailedToDecode (hd (undecodable c (selected (mbox box) 0 0 2)))]"
proof -
  let ?es = "selected (mbox box) 0 0 2"
  from assms have "?es \<noteq> []" by (auto simp: undecodable_def)
  then have "filter (\<lambda>(i, s, p). s = 2) (mb_entries (mbox box)) \<noteq> []"
    by (auto simp: selected_def)
  then obtain l where l: "store_LastIDBySuffix (mbox box) 2 = Inr l"
    using LastIDBySuffix_found by blast
  let ?box3 = "emit (CallForEachMessage 0 0 2)
     ((emit (CallLastIDBySuffix 2) ((emit CallNextID box)\<lparr>nextUID := ucast (mb_next (mbox box))\<rparr>))
        \<lparr>lastUID := ucast l\<rparr>)"
  obtain st' where v: "visit_all (refresh_visit c) ?es ((0, 0, []), ?box3)
      = (Some ErrLogged, (st', emit (LogFailedToDecode (hd (undecodable c ?es))) ?box3))"
    using visit_all_refresh_stops [OF assms] by blast
  have r: "Refresh c box = (Some ErrLogged, emit (LogFailedToDecode (hd (undecodable c ?es))) ?box3)"
    using l v by (simp add: Refresh_def Let_def store_NextID_def mbox_emit store_ForEachMessage_def)
  show ?thesis by (simp add: r new_events_def emit_def)
qed

lemma visit_all_ack_stops:
  assumes "\<forall>(j, t, q) \<in> set pre. \<exists>e. DecodeBitmessage c q = Inr e \<and> Ack e \<noteq> ack"
    and "isl (DecodeBitmessage c p)"
  shows "snd (visit_all (ack_visit c ack) (pre @ (i, s, p) # post) acc) = acc"
  using assms(1)
proof (induction pre)
  case Nil
  from assms(2) obtain err where "DecodeBitmessage c p = Inl err"
    by (cases "DecodeBitmessage c p") auto
  then show ?case by (simp add: ack_visit_Inl)
next
  case (Cons x pre)
  obtain j t q where x: "x = (j, t, q)" by (cases x)
  from Cons.prems obtain e where e: "DecodeBitmessage c q = Inr e" "Ack e \<noteq> ack"
    by (auto simp: x)
  from Cons.prems have "\<forall>(j, t, q) \<in> set pre. \<exists>e. DecodeBitmessage c q = Inr e \<and> Ack e \<noteq> ack"
    by simp
  from Cons.IH [OF this] show ?case using e by (simp add: x ack_visit_Inr)
qed

lemma ReceiveAck_stops:
  assumes "selected (mbox box) 0 0 2 = pre @ (i, s, p) # post"
    and "\<forall>(j, t, q) \<in> set pre. \<exists>e. DecodeBitmessage c q = Inr e \<and> Ack e \<noteq> ack"
    and "isl (DecodeBitmessage c p)"
  shows "ReceiveAck c box ack = (None, emit (CallForEachMessage 0 0 2) box)"
proof -
  have "ack_scan c box ack = None"
    using visit_all_ack_stops [OF assms(2,3), of i s post None]
    by (simp add: ack_scan_def store_ForEachMessage_def assms(1))
  then show ?thesis by (simp add: ReceiveAck_def Let_def ack_scan_emit)
qed

text \<open>
  C3 (as amended). In the range scan \<open>getRange\<close> an entry whose payload fails to decode
  is skipped and logged and the scan continues: the result is never \<open>nil\<close>, it holds
  exactly the entries of the range that decode, in order, and one line is logged for each
  entry that does not. In \<open>Refresh\<close> the first such entry is logged and ends the scan:
  \<open>Refresh\<close> returns the error and leaves the cached uid list and the counts as they
  were. In \<open>ReceiveAck\<close> the first such entry ends the scan without a log line: when no
  entry before it matches, \<open>ReceiveAck\<close> returns \<open>nil\<close> whatever comes after it.
\<close>

theorem undecodable_entries:
  "((\<exists>ms. fst (getRange c box lo hi s0 e0) = Some ms
         \<and> map (\<lambda>b. UID (ImapData b)) ms = decodable c (selected (mbox box) lo hi 2))
    \<and> new_events box (snd (getRange c box lo hi s0 e0))
        = CallForEachMessage lo hi 2
          # map LogDecodeForImapFailed (undecodable c (selected (mbox box) lo hi 2)))
   \<and> (undecodable c (selected (mbox box) 0 0 2) \<noteq> [] \<longrightarrow>
        fst (Refresh c box) = Some ErrLogged
        \<and> uids (snd (Refresh c box)) = uids box
        \<and> numRecent (snd (Refresh c box)) = numRecent box
        \<and> numUnseen (snd (Refresh c box)) = numUnseen box
        \<and> new_events box (snd (Refresh c box))
            = [CallNextID, CallLastIDBySuffix 2, CallForEachMessage 0 0 2,
               LogFailedToDecode (hd (undecodable c (selected (mbox box) 0 0 2)))])
   \<and> (\<forall>pre i s p post.
        selected (mbox box) 0 0 2 = pre @ (i, s, p) # post
        \<and> (\<forall>(j, t, q) \<in> set pre. \<exists>e. DecodeBitmessage c q = Inr e \<and> Ack e \<noteq> ack)
        \<and> isl (DecodeBitmessage c p)
        \<longrightarrow> ReceiveAck c box ack = (None, emit (CallForEachMessage 0 0 2) box))"
  using getRange_skips [of c box lo hi s0 e0] Refresh_stops [of c box] ReceiveAck_stops [of box _ _ _ _ _ c ack]
  by (intro conjI impI allI) blast+


lemma selected_damaged:
  "selected (mbox damaged_box) 0 0 2
     = [(1, 2, [0, 32, 7, 11])] @ (2, 2, [9]) # [(3, 2, [0, 32, 9, 13])]"
  by (simp add: selected_def damaged_box_def damaged_messages_def)

theorem undecodable_entries_witness:
  "undecodable example_codec (selected (mbox damaged_box) 0 0 2) = [2]
   \<and> decodable example_codec (selected (mbox damaged_box) 0 0 2) = [1, 3]
   \<and> map_option (map (\<lambda>b. UID (ImapData b))) (fst (getRange example_codec damaged_box 0 0 1 2))
       = Some [1, 3]
   \<and> new_events damaged_box (snd (getRange example_codec damaged_box 0 0 1 2))
       = [CallForEachMessage 0 0 2, LogDecodeForImapFailed 2]
   \<and> fst (Refresh example_codec damaged_box) = Some ErrLogged
   \<and> ReceiveAck example_codec damaged_box [13]
       = (None, emit (CallForEachMessage 0 0 2) damaged_box)"
proof -
  have u: "undecodable example_codec (selected (mbox damaged_box) 0 0 2) = [2]"
    by (simp add: selected_damaged undecodable_def example_codec_def example_decode_def)
  have d: "decodable example_codec (selected (mbox damaged_box) 0 0 2) = [1, 3]"
    by (simp add: selected_damaged decodable_def example_codec_def example_decode_def)
  have ne: "undecodable example_codec (selected (mbox damaged_box) 0 0 2) \<noteq> []"
    by (simp add: u)
  have pre: "\<forall>(j, t, q) \<in> set [(1 :: uid, 2 :: 64 word, [0, 32, 7, 11 :: byte])].
      \<exists>e. DecodeBitmessage example_codec q = Inr e \<and> Ack e \<noteq> [13]"
    by (simp add: example_codec_def example_decode_def)
  have bad: "isl (DecodeBitmessage example_codec [9])"
    by (simp add: example_codec_def example_decode_def)
  note t = undecodable_entries [of example_codec damaged_box 0 0 1 2 "[13]"]
  from t obtain ms where ms: "fst (getRange example_codec damaged_box 0 0 1 2) = Some ms"
    "map (\<lambda>b. UID (ImapData b)) ms = decodable example_codec (selected (mbox damaged_box) 0 0 2)"
    by blast
  have g: "map_option (map (\<lambda>b. UID (ImapData b))) (fst (getRange example_codec damaged_box 0 0 1 2))
      = Some [1, 3]"
    by (simp add: ms d)
  have ev: "new_events damaged_box (snd (getRange example_codec damaged_box 0 0 1 2))
      = [CallForEachMessage 0 0 2, LogDecodeForImapFailed 2]"
    using t by (simp add: u)
  have r: "fst (Refresh example_codec damaged_box) = Some ErrLogged"
    using t ne by blast
  have a: "ReceiveAck example_codec damaged_box [13]
      = (None, emit (CallForEachMessage 0 0 2) damaged_box)"
    using t selected_damaged pre bad by blast
  show ?thesis using u d g ev r a by simp
qed

text \<open>
  C3 as it is stated fails for \<open>ReceiveAck\<close> and \<open>Refresh\<close>. In the folder below the
  second entry does not decode and the third carries the ack bytes \<open>[13]\<close>:
  \<open>ReceiveAck\<close> with these bytes ends its scan at the second entry, writes no log line
  and returns \<open>nil\<close>; \<open>Refresh\<close> returns an error, and so does \<open>NewMailbox\<close>.
\<close>

theorem scan_aborts_counterexample:
  "selected (mbox damaged_box) 0 0 2
     = [(1, 2, [0, 32, 7, 11]), (2, 2, [9]), (3, 2, [0, 32, 9, 13])]
   \<and> DecodeBitmessage example_codec [9] = Inl ErrDecode
   \<and> map_sum id Ack (DecodeBitmessage example_codec [0, 32, 9, 13]) = Inr [13]
   \<and> ReceiveAck example_codec damaged_box [13]
       = (None, emit (CallForEachMessage 0 0 2) damaged_box)
   \<and> fst (Refresh example_codec damaged_box) = Some ErrLogged
   \<and> NewMailbox example_codec damaged_messages = Inl ErrLogged"
  by (simp add: selected_def damaged_box_def damaged_messages_def example_codec_def
      example_decode_def ReceiveAck_def ack_scan_def ack_visit_def store_ForEachMessage_def
      Refresh_def refresh_visit_def store_NextID_def store_LastIDBySuffix_def
      NewMailbox_def blank_Mailbox_def emit_def Let_def HasFlags_def FlagSeen_def FlagRecent_def)

section \<open>Properties of SaveBitmessage\<close>

lemma mbox_BitmessageByUID: "mbox (snd (BitmessageByUID c box u)) = mbox box"
  by (auto simp: BitmessageByUID_def bmsgByUID_def Let_def mbox_emit decodeBitmessageForImap_def
           split: sum.splits if_splits prod.splits)

lemma map_of_filter_other: "map_of (filter (\<lambda>e. fst e \<noteq> u) es) u = None"
  by (induction es) auto

lemma DeleteMessage_present:
  "store_GetMessage m u = Inr sp \<Longrightarrow>
     store_DeleteMessage m u = (None, m\<lparr>mb_entries := filter (\<lambda>e. fst e \<noteq> u) (mb_entries m)\<rparr>)"
  by (auto simp: store_GetMessage_def store_DeleteMessage_def split: if_splits option.splits)

lemma InsertMessage_free:
  "u \<noteq> 0 \<Longrightarrow> u < mb_next m \<Longrightarrow> map_of (mb_entries m) u = None \<Longrightarrow>
     store_InsertMessage m enc u sfx
       = (Inr u, m\<lparr>mb_entries := insort_key fst (u, sfx, enc) (mb_entries m)\<rparr>)"
  by (simp add: store_InsertMessage_def not_le [symmetric])

lemma visit_all_refresh_box:
  "\<exists>evs. snd (snd (visit_all (refresh_visit c) es (st, b))) = b\<lparr>trace := trace b @ evs\<rparr>"
proof (induction es arbitrary: st b)
  case Nil
  have "b = b\<lparr>trace := trace b @ []\<rparr>" by simp
  then show ?case by (metis visit_all.simps(1) snd_conv)
next
  case (Cons x es)
  obtain i s p where x: "x = (i, s, p)" by (cases x)
  show ?case
  proof (cases "DecodeBitmessage c p")
    case (Inl err)
    then have "snd (snd (visit_all (refresh_visit c) (x # es) (st, b)))
        = b\<lparr>trace := trace b @ [LogFailedToDecode i]\<rparr>"
      by (simp add: x refresh_visit_Inl emit_def)
    then show ?thesis by blast
  next
    case (Inr e)
    then obtain st1 where "refresh_visit c i s p (st, b) = (None, (st1, b))"
      using refresh_visit_Inr by blast
    then have "visit_all (refresh_visit c) (x # es) (st, b) = visit_all (refresh_visit c) es (st1, b)"
      by (simp add: x)
    then show ?thesis using Cons.IH [of st1 b] by simp
  qed
qed

lemma Refresh_eq:
  "Refresh c box =
     (case visit_all (refresh_visit c) (selected (mbox box) 0 0 2)
             ((0, 0, []),
              box\<lparr>nextUID := ucast (mb_next (mbox box)),
                    lastUID := (case store_LastIDBySuffix (mbox box) 2 of
                                  Inl err \<Rightarrow> ucast (mb_next (mbox box))
                                | Inr l \<Rightarrow> ucast l),
                    trace := trace box
                      @ [CallNextID, CallLastIDBySuffix 2, CallForEachMessage 0 0 2]\<rparr>) of
        (Some err, (st, box4)) \<Rightarrow> (Some err, box4)
      | (None, ((recent, unseen, ids), box4)) \<Rightarrow>
          (None, box4\<lparr>uids := ids, numRecent := recent, numUnseen := unseen\<rparr>))"
proof (cases "filter (\<lambda>(i, s, p). s = 2) (mb_entries (mbox box))")
  case Nil
  then show ?thesis
    by (simp add: Refresh_def Let_def store_NextID_def store_LastIDBySuffix_def emit_def
        store_ForEachMessage_def ucast_seqno_roundtrip)
next
  case (Cons e es)
  then show ?thesis
    by (simp add: Refresh_def Let_def store_NextID_def store_LastIDBySuffix_def emit_def
        store_ForEachMessage_def)
qed

lemma mbox_Refresh: "mbox (snd (Refresh c box)) = mbox box"
proof -
  let ?box3 = "box\<lparr>nextUID := ucast (mb_next (mbox box)),
                    lastUID := (case store_LastIDBySuffix (mbox box) 2 of
                                  Inl err \<Rightarrow> ucast (mb_next (mbox box))
                                | Inr l \<Rightarrow> ucast l),
                    trace := trace box
                      @ [CallNextID, CallLastIDBySuffix 2, CallForEachMessage 0 0 2]\<rparr>"
  obtain r rc un ids b where v:
    "visit_all (refresh_visit c) (selected (mbox box) 0 0 2) ((0, 0, []), ?box3)
       = (r, (rc, un, ids), b)"
    by (metis prod_cases3)
  obtain evs where "snd (snd (visit_all (refresh_visit c) (selected (mbox box) 0 0 2)
      ((0, 0, []), ?box3))) = ?box3\<lparr>trace := trace ?box3 @ evs\<rparr>"
    using visit_all_refresh_box by blast
  then have b: "mbox b = mbox box" using v by simp
  show ?thesis using b by (cases r) (simp_all add: Refresh_eq v)
qed

lemma GetMessage_stored:
  "u \<noteq> 0 \<Longrightarrow> u < mb_next m \<Longrightarrow> map_of (mb_entries m) u = Some sp \<Longrightarrow>
     store_GetMessage m u = Inr sp"
  by (simp add: store_GetMessage_def not_le [symmetric])

lemma BitmessageByUID_stored:
  assumes "u \<noteq> 0" "u < mb_next (mbox box)" "map_of (mb_entries (mbox box)) u = Some (2, p)"
    and "DecodeBitmessage c p = Inr b"
  shows "BitmessageByUID c box u =
     (Some (b\<lparr>ImapData := (ImapData b)
               \<lparr>UID := u, SequenceNumber := GetSequenceNumber (uids box) u\<rparr>\<rparr>),
      emit (CallGetMessage u) box)"
  using GetMessage_stored [OF assms(1-3)] assms(4)
  by (simp add: BitmessageByUID_def bmsgByUID_def Let_def mbox_emit uids_emit
      decodeBitmessageForImap_def)

lemma BitmessageByUID_not_stored:
  assumes "u \<ge> mb_next (mbox box) \<or> map_of (mb_entries (mbox box)) u = None
      \<or> (\<exists>s p. map_of (mb_entries (mbox box)) u = Some (s, p)
              \<and> (s \<noteq> 2 \<or> isl (DecodeBitmessage c p)))"
  shows "fst (BitmessageByUID c box u) = None"
  using assms
  by (auto simp: BitmessageByUID_def bmsgByUID_def Let_def mbox_emit store_GetMessage_def
      decodeBitmessageForImap_def split: sum.splits option.splits)

text \<open>
  C4 (as amended). For every message that carries a nonzero uid \<open>u\<close>.
  \<open>SaveBitmessage\<close> fails with "Invalid sequence number", the folder left as it was,
  when no stored version can be fetched at \<open>u\<close>: no entry is stored at \<open>u\<close>, or
  \<open>u\<close> is at or beyond the next-id bound, or the entry there has another suffix than 2
  or a payload that does not decode. When the folder holds at \<open>u\<close> an entry with the
  suffix 2 that decodes: \<open>SaveBitmessage\<close> fails with "Cannot change date received", the
  folder left as it was, when the received date of that version differs from the
  message's; and otherwise the folder deletes the old version, after which, when the
  message does not serialize, the error of \<open>Serialize\<close> is returned and the folder holds
  its entries without the old version, and when the message serializes, the folder accepts
  the new version at the id \<open>u\<close>, which is the uid the message then carries, the folder
  holds the new version in place of the old one, and the operation ends with \<open>Refresh\<close>,
  whose result it returns.
\<close>

theorem SaveBitmessage_update:
  assumes "UID (ImapData msg) = u" and "u \<noteq> 0"
  shows
   "((u \<ge> mb_next (mbox box) \<or> map_of (mb_entries (mbox box)) u = None
      \<or> (\<exists>s p. map_of (mb_entries (mbox box)) u = Some (s, p)
              \<and> (s \<noteq> 2 \<or> isl (DecodeBitmessage c p)))) \<longrightarrow>
       fst (SaveBitmessage c box msg) = Some ErrInvalidSequenceNumber
       \<and> mbox (snd (snd (SaveBitmessage c box msg))) = mbox box)
  \<and> (\<forall>p b. u < mb_next (mbox box) \<and> map_of (mb_entries (mbox box)) u = Some (2, p)
         \<and> DecodeBitmessage c p = Inr b \<longrightarrow>
       (DateReceived (ImapData b) \<noteq> DateReceived (ImapData msg) \<longrightarrow>
          fst (SaveBitmessage c box msg) = Some ErrCannotChangeDate
          \<and> mbox (snd (snd (SaveBitmessage c box msg))) = mbox box)
     \<and> (DateReceived (ImapData b) = DateReceived (ImapData msg) \<longrightarrow>
          store_DeleteMessage (mbox box) u
            = (None, (mbox box)\<lparr>mb_entries := filter (\<lambda>e. fst e \<noteq> u) (mb_entries (mbox box))\<rparr>)
        \<and> (\<forall>err. Serialize c msg = Inl err \<longrightarrow>
              fst (SaveBitmessage c box msg) = Some err
              \<and> mb_entries (mbox (snd (snd (SaveBitmessage c box msg))))
                  = filter (\<lambda>e. fst e \<noteq> u) (mb_entries (mbox box)))
        \<and> (\<forall>enc. Serialize c msg = Inr enc \<longrightarrow>
             (let deleted = snd (store_DeleteMessage (mbox box) u);
                  stored = (emit (CallInsertMessage u (Encoding msg))
                             (emit (CallDeleteMessage u) (emit (CallGetMessage u) box)))
                           \<lparr>mbox := (mbox box)
                              \<lparr>mb_entries := replaced (mb_entries (mbox box)) u (Encoding msg) enc\<rparr>\<rparr>
              in fst (store_InsertMessage deleted enc u (Encoding msg)) = Inr u
               \<and> SaveBitmessage c box msg =
                   (case Refresh c stored of
                      (Some err, box') \<Rightarrow> (Some err, msg, emit (LogRefreshError err) box')
                    | (None, box') \<Rightarrow> (None, msg, box'))
               \<and> mb_entries (mbox (snd (snd (SaveBitmessage c box msg))))
                   = replaced (mb_entries (mbox box)) u (Encoding msg) enc
               \<and> UID (ImapData (fst (snd (SaveBitmessage c box msg)))) = u))))"
proof (intro conjI impI allI)
  assume "u \<ge> mb_next (mbox box) \<or> map_of (mb_entries (mbox box)) u = None
      \<or> (\<exists>s p. map_of (mb_entries (mbox box)) u = Some (s, p)
              \<and> (s \<noteq> 2 \<or> isl (DecodeBitmessage c p)))"
  then have n: "fst (BitmessageByUID c box u) = None" by (rule BitmessageByUID_not_stored)
  then have "SaveBitmessage c box msg
      = (Some ErrInvalidSequenceNumber, msg, snd (BitmessageByUID c box u))"
    using assms
    by (cases "BitmessageByUID c box u") (simp add: SaveBitmessage_def SaveBitmessage_replace_def)
  then show "fst (SaveBitmessage c box msg) = Some ErrInvalidSequenceNumber"
    and "mbox (snd (snd (SaveBitmessage c box msg))) = mbox box"
    by (simp_all add: mbox_BitmessageByUID)
next
  fix p b
  assume st: "u < mb_next (mbox box) \<and> map_of (mb_entries (mbox box)) u = Some (2, p)
      \<and> DecodeBitmessage c p = Inr b"
  let ?prev = "b\<lparr>ImapData := (ImapData b)
               \<lparr>UID := u, SequenceNumber := GetSequenceNumber (uids box) u\<rparr>\<rparr>"
  let ?box1 = "emit (CallGetMessage u) box"
  let ?box2 = "emit (CallDeleteMessage u) ?box1"
  let ?deleted = "(mbox box)\<lparr>mb_entries := filter (\<lambda>e. fst e \<noteq> u) (mb_entries (mbox box))\<rparr>"
  from st have lt: "u < mb_next (mbox box)"
    and at: "map_of (mb_entries (mbox box)) u = Some (2, p)"
    and dec: "DecodeBitmessage c p = Inr b" by simp_all
  have by_uid: "BitmessageByUID c box u = (Some ?prev, ?box1)"
    by (rule BitmessageByUID_stored [OF assms(2) lt at dec])
  have q: "store_GetMessage (mbox box) u = Inr (2, p)"
    by (rule GetMessage_stored [OF assms(2) lt at])
  have del: "store_DeleteMessage (mbox box) u = (None, ?deleted)"
    using q by (rule DeleteMessage_present)
  {
    assume d: "DateReceived (ImapData b) \<noteq> DateReceived (ImapData msg)"
    have "SaveBitmessage c box msg = (Some ErrCannotChangeDate, msg, ?box1)"
      using assms d by_uid by (simp add: SaveBitmessage_def SaveBitmessage_replace_def)
    then show "fst (SaveBitmessage c box msg) = Some ErrCannotChangeDate"
      and "mbox (snd (snd (SaveBitmessage c box msg))) = mbox box"
      by (simp_all add: mbox_emit)
  }
  assume d: "DateReceived (ImapData b) = DateReceived (ImapData msg)"
  show "store_DeleteMessage (mbox box) u = (None, ?deleted)" by (rule del)
  have repl: "SaveBitmessage_replace c box msg = (None, ?box2\<lparr>mbox := ?deleted\<rparr>)"
    using assms d by_uid del
    by (simp add: SaveBitmessage_replace_def Let_def mbox_emit)
  {
    fix err
    assume "Serialize c msg = Inl err"
    then have "SaveBitmessage c box msg = (Some err, msg, ?box2\<lparr>mbox := ?deleted\<rparr>)"
      using assms repl by (simp add: SaveBitmessage_def)
    then show "fst (SaveBitmessage c box msg) = Some err"
      and "mb_entries (mbox (snd (snd (SaveBitmessage c box msg))))
          = filter (\<lambda>e. fst e \<noteq> u) (mb_entries (mbox box))"
      by simp_all
  }
  fix enc
  assume ser: "Serialize c msg = Inr enc"
  let ?stored = "(emit (CallInsertMessage u (Encoding msg)) ?box2)
       \<lparr>mbox := (mbox box)\<lparr>mb_entries := replaced (mb_entries (mbox box)) u (Encoding msg) enc\<rparr>\<rparr>"
  have free: "map_of (mb_entries ?deleted) u = None" by (simp add: map_of_filter_other)
  have ins: "store_InsertMessage ?deleted enc u (Encoding msg)
      = (Inr u, ?deleted\<lparr>mb_entries := insort_key fst (u, Encoding msg, enc) (mb_entries ?deleted)\<rparr>)"
    using assms(2) lt free by (intro InsertMessage_free) simp_all
  have same: "msg\<lparr>ImapData := (ImapData msg)\<lparr>UID := u\<rparr>\<rparr> = msg" using assms(1) by simp
  have save: "SaveBitmessage c box msg =
      (case Refresh c ?stored of
         (Some err, box') \<Rightarrow> (Some err, msg, emit (LogRefreshError err) box')
       | (None, box') \<Rightarrow> (None, msg, box'))"
    using assms ser repl ins
    by (simp add: SaveBitmessage_def Let_def same emit_def replaced_def)
  have final: "mbox (snd (snd (SaveBitmessage c box msg))) = mbox ?stored"
    using mbox_Refresh [of c ?stored]
    by (cases "Refresh c ?stored") (auto simp: save mbox_emit split: option.splits)
  show "let deleted = snd (store_DeleteMessage (mbox box) u);
            stored = (emit (CallInsertMessage u (Encoding msg))
                       (emit (CallDeleteMessage u) (emit (CallGetMessage u) box)))
                     \<lparr>mbox := (mbox box)
                        \<lparr>mb_entries := replaced (mb_entries (mbox box)) u (Encoding msg) enc\<rparr>\<rparr>
        in fst (store_InsertMessage deleted enc u (Encoding msg)) = Inr u
         \<and> SaveBitmessage c box msg =
             (case Refresh c stored of
                (Some err, box') \<Rightarrow> (Some err, msg, emit (LogRefreshError err) box')
              | (None, box') \<Rightarrow> (None, msg, box'))
         \<and> mb_entries (mbox (snd (snd (SaveBitmessage c box msg))))
             = replaced (mb_entries (mbox box)) u (Encoding msg) enc
         \<and> UID (ImapData (fst (snd (SaveBitmessage c box msg)))) = u"
    unfolding Let_def
  proof (intro conjI)
    show "fst (store_InsertMessage (snd (store_DeleteMessage (mbox box) u)) enc u (Encoding msg)) = Inr u"
      by (simp add: del ins)
    show "SaveBitmessage c box msg =
      (case Refresh c ?stored of
         (Some err, box') \<Rightarrow> (Some err, msg, emit (LogRefreshError err) box')
       | (None, box') \<Rightarrow> (None, msg, box'))" by (rule save)
    show "mb_entries (mbox (snd (snd (SaveBitmessage c box msg))))
        = replaced (mb_entries (mbox box)) u (Encoding msg) enc"
      by (simp add: final)
    show "UID (ImapData (fst (snd (SaveBitmessage c box msg)))) = u"
      using assms(1) by (cases "Refresh c ?stored") (auto simp: save split: option.splits)
  qed
qed


theorem SaveBitmessage_update_witness:
  "fst (SaveBitmessage example_codec three_box (example_message 5 8))
     = Some ErrInvalidSequenceNumber
   \<and> fst (SaveBitmessage example_codec three_box (example_message 2 99))
     = Some ErrCannotChangeDate
   \<and> fst (SaveBitmessage example_codec three_box (example_message 2 8)) = None
   \<and> mb_entries (mbox (snd (snd (SaveBitmessage example_codec three_box (example_message 2 8)))))
     = [(1, 2, [0, 32, 7, 11]), (2, 2, [0, 33, 8, 12]), (3, 2, [0, 32, 9, 13])]
   \<and> UID (ImapData (fst (snd (SaveBitmessage example_codec three_box (example_message 2 8))))) = 2
   \<and> fst (SaveBitmessage failing_codec three_box (example_message 2 8)) = Some ErrSerialize
   \<and> mb_entries (mbox (snd (snd (SaveBitmessage failing_codec three_box (example_message 2 8)))))
     = [(1, 2, [0, 32, 7, 11]), (3, 2, [0, 32, 9, 13])]"
proof -
  let ?b = "\<lparr>ImapData = \<lparr>UID = 0, SequenceNumber = 0, Flags = 32, DateReceived = 8\<rparr>,
      Ack = [12], AckReceived = False, Encoding = 2, Content = []\<rparr>"
  have absent: "map_of (mb_entries (mbox three_box)) 5 = None"
    by (simp add: three_box_def three_messages_def)
  have lt: "(2 :: uid) < mb_next (mbox three_box)"
    by (simp add: three_box_def three_messages_def word_less_nat_alt)
  have at: "map_of (mb_entries (mbox three_box)) 2 = Some (2, [0, 32, 8, 12])"
    by (simp add: three_box_def three_messages_def)
  have dec: "DecodeBitmessage example_codec [0, 32, 8, 12] = Inr ?b"
    by (simp add: example_codec_def example_decode_def)
  have decf: "DecodeBitmessage failing_codec [0, 32, 8, 12] = Inr ?b"
    by (simp add: failing_codec_def example_decode_def)
  have ser: "Serialize example_codec (example_message 2 8) = Inr [0, 33, 8, 12]"
    by (simp add: example_codec_def example_serialize_def example_message_def)
  have serf: "Serialize failing_codec (example_message 2 8) = Inl ErrSerialize"
    by (simp add: failing_codec_def)
  have same: "DateReceived (ImapData ?b) = DateReceived (ImapData (example_message 2 8))"
    by (simp add: example_message_def)
  have other: "DateReceived (ImapData ?b) \<noteq> DateReceived (ImapData (example_message 2 99))"
    by (simp add: example_message_def)
  have u5: "UID (ImapData (example_message 5 8)) = 5" and u99: "UID (ImapData (example_message 2 99)) = 2"
    and u8: "UID (ImapData (example_message 2 8)) = 2"
    and nz5: "(5 :: uid) \<noteq> 0" and nz: "(2 :: uid) \<noteq> 0"
    by (simp_all add: example_message_def)
  have none: "5 \<ge> mb_next (mbox three_box) \<or> map_of (mb_entries (mbox three_box)) 5 = None
      \<or> (\<exists>s p. map_of (mb_entries (mbox three_box)) 5 = Some (s, p)
              \<and> (s \<noteq> 2 \<or> isl (DecodeBitmessage example_codec p)))"
    using absent by (intro disjI2 disjI1)
  have a: "fst (SaveBitmessage example_codec three_box (example_message 5 8))
      = Some ErrInvalidSequenceNumber"
    by (rule SaveBitmessage_update [OF u5 nz5, of three_box example_codec,
          THEN conjunct1, THEN mp, OF none, THEN conjunct1])
  note stored = conjI [OF lt conjI [OF at dec]]
  note storedf = conjI [OF lt conjI [OF at decf]]
  have b: "fst (SaveBitmessage example_codec three_box (example_message 2 99))
      = Some ErrCannotChangeDate"
    by (rule SaveBitmessage_update [OF u99 nz, of three_box example_codec,
          THEN conjunct2, THEN spec, THEN spec, THEN mp, OF stored,
          THEN conjunct1, THEN mp, OF other, THEN conjunct1])
  note c0 = SaveBitmessage_update [OF u8 nz, of three_box example_codec,
          THEN conjunct2, THEN spec, THEN spec, THEN mp, OF stored,
          THEN conjunct2, THEN mp, OF same, THEN conjunct2, THEN conjunct2,
          THEN spec, THEN mp, OF ser, unfolded Let_def]
  have c: "mb_entries (mbox (snd (snd (SaveBitmessage example_codec three_box (example_message 2 8)))))
             = replaced (mb_entries (mbox three_box)) 2 (Encoding (example_message 2 8)) [0, 33, 8, 12]
         \<and> UID (ImapData (fst (snd (SaveBitmessage example_codec three_box (example_message 2 8))))) = 2"
    by (rule c0 [THEN conjunct2, THEN conjunct2])
  have f: "fst (SaveBitmessage failing_codec three_box (example_message 2 8)) = Some ErrSerialize
      \<and> mb_entries (mbox (snd (snd (SaveBitmessage failing_codec three_box (example_message 2 8)))))
          = filter (\<lambda>e. fst e \<noteq> 2) (mb_entries (mbox three_box))"
    by (rule SaveBitmessage_update [OF u8 nz, of three_box failing_codec,
          THEN conjunct2, THEN spec, THEN spec, THEN mp, OF storedf,
          THEN conjunct2, THEN mp, OF same, THEN conjunct2, THEN conjunct1,
          THEN spec, THEN mp, OF serf])
  have r: "replaced (mb_entries (mbox three_box)) 2 (Encoding (example_message 2 8)) [0, 33, 8, 12]
      = [(1, 2, [0, 32, 7, 11]), (2, 2, [0, 33, 8, 12]), (3, 2, [0, 32, 9, 13])]"
    by (simp add: replaced_def three_box_def three_messages_def example_message_def
        word_le_nat_alt)
  have g: "filter (\<lambda>e. fst e \<noteq> 2) (mb_entries (mbox three_box))
      = [(1, 2, [0, 32, 7, 11]), (3, 2, [0, 32, 9, 13])]"
    by (simp add: three_box_def three_messages_def)
  have ok: "fst (SaveBitmessage example_codec three_box (example_message 2 8)) = None"
    by (simp add: save_defs example_message_def GetSequenceNumber_def word_le_nat_alt)
  from c r have c': "mb_entries (mbox (snd (snd (SaveBitmessage example_codec three_box
        (example_message 2 8)))))
      = [(1, 2, [0, 32, 7, 11]), (2, 2, [0, 33, 8, 12]), (3, 2, [0, 32, 9, 13])]"
    and c'': "UID (ImapData (fst (snd (SaveBitmessage example_codec three_box
        (example_message 2 8))))) = 2"
    by (simp_all only:)
  from f g have f': "fst (SaveBitmessage failing_codec three_box (example_message 2 8))
      = Some ErrSerialize"
    and f'': "mb_entries (mbox (snd (snd (SaveBitmessage failing_codec three_box
        (example_message 2 8)))))
      = [(1, 2, [0, 32, 7, 11]), (3, 2, [0, 32, 9, 13])]"
    by (simp_all only:)
  show ?thesis by (intro conjI a b ok c' c'' f' f'')
qed

text \<open>
  C4 as it is stated fails when the message does not serialize: the stored version
  exists and has the received date of the message, \<open>SaveBitmessage\<close> deletes it, and then
  returns the error of \<open>Serialize\<close>; no new version is inserted and \<open>Refresh\<close> does not
  run.
\<close>

theorem SaveBitmessage_serialize_counterexample:
  "map_option (\<lambda>b. DateReceived (ImapData b)) (fst (BitmessageByUID failing_codec three_box 2))
     = Some 8
   \<and> UID (ImapData (example_message 2 8)) = 2
   \<and> DateReceived (ImapData (example_message 2 8)) = 8
   \<and> fst (SaveBitmessage failing_codec three_box (example_message 2 8)) = Some ErrSerialize
   \<and> mb_entries (mbox (snd (snd (SaveBitmessage failing_codec three_box (example_message 2 8)))))
     = [(1, 2, [0, 32, 7, 11]), (3, 2, [0, 32, 9, 13])]
   \<and> new_events three_box (snd (snd (SaveBitmessage failing_codec three_box (example_message 2 8))))
     = [CallGetMessage 2, CallDeleteMessage 2]
   \<and> uids (snd (snd (SaveBitmessage failing_codec three_box (example_message 2 8)))) = [1, 2, 3]"
  by (simp add: save_defs example_message_def GetSequenceNumber_def new_events_def word_le_nat_alt)

end
